theory Spec2Isabelle
  imports Complex_Main "HOL-Library.AList"
begin

section \<open>Data model of the traffic graph\<close>

text \<open>
  The graph handlers of \<^verbatim>\<open>handlers/graph.go\<close> and the response-time appender of
  \<^verbatim>\<open>graph/appender/response_time.go\<close> work on pointers to nodes and edges: a traffic
  map sends a node id to a node pointer, a node holds a slice of edge pointers, an edge
  points back to its source and to its destination node. Merging and reduction share
  these objects between maps and between edge slices, so the model keeps an explicit
  store: node and edge references are addresses, and every function takes the store
  and returns the updated one.

  A Go \<^verbatim>\<open>float64\<close> is modelled as a real number: finite and with exact arithmetic
  (no rounding, no NaN, no infinity). A Go map that is iterated is an association list
  with distinct keys, iterated in list order; the statements below hold for whatever
  order the list has. Assignment \<^verbatim>\<open>m[k] = v\<close> is \<open>AList.update k v m\<close>.
\<close>

datatype nodeType = NodeTypeApp | NodeTypeService | NodeTypeUnknown | NodeTypeWorkload

text \<open>The values stored under \<^verbatim>\<open>map[string]interface{}\<close>: counters, flags, strings and
  the \<^verbatim>\<open>map[string]bool\<close> of destination services.\<close>

datatype mdval = VFloat real | VBool bool | VString string | VStringSet "(string \<times> bool) list"

type_synonym metadata = "string \<rightharpoonup> mdval"
type_synonym nodeRef = nat
type_synonym edgeRef = nat

record node =
  ID :: string
  NodeType :: nodeType
  Namespace :: string
  Workload :: string
  App :: string
  Version :: string
  Service :: string
  Edges :: "edgeRef list"
  Metadata :: metadata

record edge =
  Source :: nodeRef
  Dest :: nodeRef
  EdgeMetadata :: metadata

record heap =
  nodes :: "nodeRef \<Rightarrow> node"
  edges :: "edgeRef \<Rightarrow> edge"
  nextNode :: nat
  nextEdge :: nat

type_synonym trafficMap = "(string \<times> nodeRef) list"

text \<open>Every panic of the source is a value: \<^verbatim>\<open>graph.Error\<close> (a panic carrying a message
  and a status code, recovered by \<^verbatim>\<open>handlePanic\<close>), a failed type assertion
  \<^verbatim>\<open>x.(float64)\<close> or \<^verbatim>\<open>x.(bool)\<close>, and the comparison of two interface values that
  both hold maps.\<close>

datatype error =
    ErrUnexpectedEdgeProtocol "mdval option"
  | ErrExpectedNodeType nodeType nodeType
  | PanicTypeAssertion
  | PanicUncomparable

definition bindE :: "error + 'a \<Rightarrow> ('a \<Rightarrow> error + 'b) \<Rightarrow> error + 'b" where
  "bindE m f = (case m of Inl e \<Rightarrow> Inl e | Inr x \<Rightarrow> f x)"

definition setNodeMetadata :: "nodeRef \<Rightarrow> metadata \<Rightarrow> heap \<Rightarrow> heap" where
  "setNodeMetadata n md h = h\<lparr>nodes := (nodes h)(n := (nodes h n)\<lparr>Metadata := md\<rparr>)\<rparr>"

definition setNodeEdges :: "nodeRef \<Rightarrow> edgeRef list \<Rightarrow> heap \<Rightarrow> heap" where
  "setNodeEdges n es h = h\<lparr>nodes := (nodes h)(n := (nodes h n)\<lparr>Edges := es\<rparr>)\<rparr>"

definition setEdgeMetadata :: "edgeRef \<Rightarrow> metadata \<Rightarrow> heap \<Rightarrow> heap" where
  "setEdgeMetadata e md h = h\<lparr>edges := (edges h)(e := (edges h e)\<lparr>EdgeMetadata := md\<rparr>)\<rparr>"

section \<open>Metric aggregation primitives\<close>

text \<open>\<^verbatim>\<open>addToMetadataValue\<close>: the type assertion \<^verbatim>\<open>curr.(float64)\<close> panics on any other value.\<close>

definition addToMetadataValue :: "metadata \<Rightarrow> string \<Rightarrow> real \<Rightarrow> error + metadata" where
  "addToMetadataValue md k v =
     (case md k of
        Some (VFloat current) \<Rightarrow> Inr (md(k \<mapsto> VFloat (current + v)))
      | Some _ \<Rightarrow> Inl PanicTypeAssertion
      | None \<Rightarrow> Inr (md(k \<mapsto> VFloat v)))"

text \<open>\<^verbatim>\<open>averageMetadataValue\<close>: both shadow entries are read before anything is written.
  The count is never zero after \<open>count := 1\<close> unless a stored count is \<open>-1\<close>; HOL's
  \<open>x / 0 = 0\<close> is met only there.\<close>

definition averageMetadataValue :: "metadata \<Rightarrow> string \<Rightarrow> real \<Rightarrow> error + metadata" where
  "averageMetadataValue md k v =
     (let kTotal = k @ ''_total''; kCount = k @ ''_count'' in
      bindE (case md kTotal of
               Some (VFloat prevTotal) \<Rightarrow> Inr (v + prevTotal)
             | Some _ \<Rightarrow> Inl PanicTypeAssertion
             | None \<Rightarrow> Inr v) (\<lambda>total.
      bindE (case md kCount of
               Some (VFloat prevCount) \<Rightarrow> Inr (1 + prevCount)
             | Some _ \<Rightarrow> Inl PanicTypeAssertion
             | None \<Rightarrow> Inr 1) (\<lambda>count.
      Inr (md(kTotal \<mapsto> VFloat total, kCount \<mapsto> VFloat count, k \<mapsto> VFloat (total / count))))))"

text \<open>\<^verbatim>\<open>averageResponseTime\<close> of the appender, on a \<^verbatim>\<open>map[string]float64\<close>.\<close>

definition averageResponseTime :: "(string \<rightharpoonup> real) \<Rightarrow> string \<Rightarrow> real \<Rightarrow> (string \<rightharpoonup> real)" where
  "averageResponseTime responseTimeMap key val =
     (let keyTotal = key @ ''_total''; keyCount = key @ ''_count'';
          total = (case responseTimeMap keyTotal of Some prevTotal \<Rightarrow> val + prevTotal | None \<Rightarrow> val);
          count = (case responseTimeMap keyCount of Some prevCount \<Rightarrow> 1 + prevCount | None \<Rightarrow> 1)
      in responseTimeMap(keyTotal \<mapsto> total, keyCount \<mapsto> count, key \<mapsto> total / count))"

text \<open>A sequence of contributions to one key, in the order given.\<close>

fun averageMetadataValues :: "metadata \<Rightarrow> string \<Rightarrow> real list \<Rightarrow> error + metadata" where
  "averageMetadataValues md k [] = Inr md"
| "averageMetadataValues md k (v # vs) =
     bindE (averageMetadataValue md k v) (\<lambda>md'. averageMetadataValues md' k vs)"

fun averageResponseTimes :: "(string \<rightharpoonup> real) \<Rightarrow> string \<Rightarrow> real list \<Rightarrow> (string \<rightharpoonup> real)" where
  "averageResponseTimes m key [] = m"
| "averageResponseTimes m key (v # vs) = averageResponseTimes (averageResponseTime m key v) key vs"

section \<open>The response-time appender\<close>




text \<open>\<^verbatim>\<open>applyResponseTime\<close>: the inner loop over the edges of one node, then the loop over
  the map. A key missing from a \<^verbatim>\<open>map[string]float64\<close> reads as \<open>0\<close>.\<close>

definition responseTimeKey :: "heap \<Rightarrow> edgeRef \<Rightarrow> string" where
  "responseTimeKey h e = ID (nodes h (Source (edges h e))) @ '' '' @ ID (nodes h (Dest (edges h e)))"

definition lookupFloat :: "(string \<rightharpoonup> real) \<Rightarrow> string \<Rightarrow> real" where
  "lookupFloat m k = (case m k of Some v \<Rightarrow> v | None \<Rightarrow> 0)"

fun applyResponseTimeEdges :: "edgeRef list \<Rightarrow> (string \<rightharpoonup> real) \<Rightarrow> heap \<Rightarrow> heap" where
  "applyResponseTimeEdges [] responseTimeMap h = h"
| "applyResponseTimeEdges (e # es) responseTimeMap h =
     applyResponseTimeEdges es responseTimeMap
       (setEdgeMetadata e ((EdgeMetadata (edges h e))(''responseTime'' \<mapsto>
          VFloat (lookupFloat responseTimeMap (responseTimeKey h e)))) h)"

fun applyResponseTime :: "trafficMap \<Rightarrow> (string \<rightharpoonup> real) \<Rightarrow> heap \<Rightarrow> heap" where
  "applyResponseTime [] responseTimeMap h = h"
| "applyResponseTime ((nid, n) # rest) responseTimeMap h =
     applyResponseTime rest responseTimeMap
       (applyResponseTimeEdges (Edges (nodes h n)) responseTimeMap h)"

section \<open>Parts of package graph that the handlers call\<close>

text \<open>Package \<^verbatim>\<open>graph\<close> is not among the sources. The handlers below take the identity
  resolver \<^verbatim>\<open>graph.Id\<close> as a parameter \<open>idf\<close>, so every general statement holds for any
  resolver; the definitions of this section follow the specification and are used to
  run the handlers on concrete inputs.\<close>

text \<open>The attribution of one end of a sample, in the order in which the handlers pass
  it on: namespace, workload, app, version, service.\<close>

type_synonym labels = "string \<times> string \<times> string \<times> string \<times> string"

type_synonym idfun = "labels \<Rightarrow> string \<Rightarrow> string \<times> nodeType"

definition Unknown :: string where
  "Unknown = ''unknown''"

definition GraphTypeApp :: string where
  "GraphTypeApp = ''app''"

definition GraphTypeVersionedApp :: string where
  "GraphTypeVersionedApp = ''versionedApp''"

text \<open>Modelled from the spec: \<^verbatim>\<open>graph.Id\<close> (package graph is missing). Section 4.1: an
  unknown namespace gives the Unknown kind with an id made of the sentinel alone; a
  service with no workload, app or version gives the Service kind; an app graph type
  gives the App kind, with the version in the id when the graph type distinguishes
  versions; anything else is a Workload. The fields are joined with a fixed delimiter
  behind a tag for the kind. The source has no node type of its own for versioned apps
  (\<^verbatim>\<open>handleMisconfiguredLabels\<close> tests \<^verbatim>\<open>NodeTypeApp\<close> together with the graph type).\<close>

fun Id :: idfun where
  "Id (namespace, workload, app, version, service) graphType =
     (if namespace = Unknown then (Unknown, NodeTypeUnknown)
      else if service \<noteq> [] \<and> workload = [] \<and> app = [] \<and> version = []
        then (''svc_'' @ namespace @ ''_'' @ service, NodeTypeService)
      else if graphType = GraphTypeApp \<or> graphType = GraphTypeVersionedApp
        then (if version \<noteq> [] \<and> graphType = GraphTypeVersionedApp
              then (''vapp_'' @ namespace @ ''_'' @ app @ ''_'' @ version, NodeTypeApp)
              else (''app_'' @ namespace @ ''_'' @ app, NodeTypeApp))
      else (''wl_'' @ namespace @ ''_'' @ workload, NodeTypeWorkload))"

text \<open>Modelled from the spec: \<^verbatim>\<open>graph.NewNodeExplicit\<close> (package graph is missing). Section 3:
  a node carries its id and kind, the fields its kind uses (the others are empty), no
  edge and an empty metadata map. A workload keeps its app and version, which the
  reconciliation of section 4.3 compares.\<close>

fun NewNodeExplicit :: "string \<Rightarrow> labels \<Rightarrow> nodeType \<Rightarrow> string \<Rightarrow> node" where
  "NewNodeExplicit nid (namespace, workload, app, version, service) nodeType graphType =
     \<lparr>ID = nid, NodeType = nodeType, Namespace = namespace,
      Workload = (if nodeType = NodeTypeWorkload then workload else []),
      App = (if nodeType = NodeTypeWorkload \<or> nodeType = NodeTypeApp then app else []),
      Version = (if nodeType = NodeTypeWorkload
                   \<or> (nodeType = NodeTypeApp \<and> graphType = GraphTypeVersionedApp) then version else []),
      Service = (if nodeType = NodeTypeService then service else []),
      Edges = [], Metadata = Map.empty\<rparr>"

text \<open>Modelled from the spec: \<^verbatim>\<open>Node.AddEdge\<close> (package graph is missing). Section 3: a
  new edge from the node to \<open>dest\<close>, with empty metadata, is put at the end of the node's
  ordered edges and returned.\<close>

definition AddEdge :: "nodeRef \<Rightarrow> nodeRef \<Rightarrow> heap \<Rightarrow> edgeRef \<times> heap" where
  "AddEdge s dest h =
     (let e = nextEdge h in
      (e, h\<lparr>nodes := (nodes h)(s := (nodes h s)\<lparr>Edges := Edges (nodes h s) @ [e]\<rparr>),
            edges := (edges h)(e := \<lparr>Source = s, Dest = dest, EdgeMetadata = Map.empty\<rparr>),
            nextEdge := Suc e\<rparr>))"

record namespaceInfo =
  Name :: string
  Duration :: int

record options =
  GraphType :: string
  InjectServiceNodes :: bool
  IncludeIstio :: bool
  VendorOptions_GraphType :: string
  Namespaces :: "(string \<times> namespaceInfo) list"
  AccessibleNamespaces :: "string \<rightharpoonup> int"

record sample =
  Metric :: "string \<rightharpoonup> string"
  Value :: real

section \<open>Traffic map builder\<close>

definition addToNodeMetadataValue :: "nodeRef \<Rightarrow> string \<Rightarrow> real \<Rightarrow> heap \<Rightarrow> error + heap" where
  "addToNodeMetadataValue n k v h =
     bindE (addToMetadataValue (Metadata (nodes h n)) k v) (\<lambda>md. Inr (setNodeMetadata n md h))"

definition addToEdgeMetadataValue :: "edgeRef \<Rightarrow> string \<Rightarrow> real \<Rightarrow> heap \<Rightarrow> error + heap" where
  "addToEdgeMetadataValue e k v h =
     bindE (addToMetadataValue (EdgeMetadata (edges h e)) k v) (\<lambda>md. Inr (setEdgeMetadata e md h))"

definition addToDestServices :: "metadata \<Rightarrow> string \<Rightarrow> error + metadata" where
  "addToDestServices md destService =
     (case md ''destServices'' of
        None \<Rightarrow> Inr (md(''destServices'' \<mapsto> VStringSet [(destService, True)]))
      | Some (VStringSet destServices) \<Rightarrow>
          Inr (md(''destServices'' \<mapsto> VStringSet (AList.update destService True destServices)))
      | Some _ \<Rightarrow> Inl PanicTypeAssertion)"

definition handleMisconfiguredLabels ::
  "nodeRef \<Rightarrow> string \<Rightarrow> string \<Rightarrow> real \<Rightarrow> options \<Rightarrow> heap \<Rightarrow> heap" where
  "handleMisconfiguredLabels n app version rate opts h =
     (let nd = nodes h n;
          isVersionedAppGraph = (VendorOptions_GraphType opts = GraphTypeVersionedApp);
          isWorkloadNode = (NodeType nd = NodeTypeWorkload);
          isVersionedAppNode = (NodeType nd = NodeTypeApp \<and> isVersionedAppGraph)
      in if isWorkloadNode \<or> isVersionedAppNode then
           (let labels = (if App nd \<noteq> app then [''app''] else [])
                       @ (if Version nd \<noteq> version then [''version''] else [])
            in if length labels > 0 then
                 (let nd1 = nd\<lparr>Metadata := (Metadata nd)(''isMisconfigured'' \<mapsto>
                              VString (''labels=['' @ (case labels of
                                  [a, b] \<Rightarrow> a @ '' '' @ b | [a] \<Rightarrow> a | _ \<Rightarrow> []) @ '']''))\<rparr>;
                      nd2 = (if rate > 0.0 then nd1\<lparr>App := app, Version := version\<rparr> else nd1)
                  in h\<lparr>nodes := (nodes h)(n := nd2)\<rparr>)
               else h)
         else h)"

definition addNode ::
  "idfun \<Rightarrow> trafficMap \<Rightarrow> labels \<Rightarrow> options \<Rightarrow> heap \<Rightarrow> (nodeRef \<times> bool) \<times> trafficMap \<times> heap" where
  "addNode idf trafficMap lbls opts h =
     (case idf lbls (GraphType opts) of (nid, nodeType) \<Rightarrow>
        (case map_of trafficMap nid of
           Some n \<Rightarrow> ((n, True), trafficMap, h)
         | None \<Rightarrow>
             (let n = nextNode h;
                  newNode = NewNodeExplicit nid lbls nodeType (GraphType opts)
              in ((n, False), AList.update nid n trafficMap,
                  h\<lparr>nodes := (nodes h)(n := newNode), nextNode := Suc n\<rparr>))))"

text \<open>The search loop of \<^verbatim>\<open>addHttpTraffic\<close> and \<^verbatim>\<open>addTcpTraffic\<close>: the first edge of the
  source whose destination has the id of \<open>dest\<close> and whose metadata holds the string
  \<open>proto\<close> under \<open>key\<close>. \<^verbatim>\<open>addHttpTraffic\<close> reads the key \<^verbatim>\<open>"protocol"\<close>, \<^verbatim>\<open>addTcpTraffic\<close> reads
  the key \<^verbatim>\<open>"procotol"\<close>.\<close>

fun findEdge :: "heap \<Rightarrow> string \<Rightarrow> string \<Rightarrow> string \<Rightarrow> edgeRef list \<Rightarrow> edgeRef option" where
  "findEdge h destID key proto [] = None"
| "findEdge h destID key proto (e # es) =
     (if destID = ID (nodes h (Dest (edges h e))) \<and> EdgeMetadata (edges h e) key = Some (VString proto)
      then Some e else findEdge h destID key proto es)"

definition findOrAddEdge :: "nodeRef \<Rightarrow> nodeRef \<Rightarrow> string \<Rightarrow> string \<Rightarrow> heap \<Rightarrow> edgeRef \<times> heap" where
  "findOrAddEdge s dest key proto h =
     (case findEdge h (ID (nodes h dest)) key proto (Edges (nodes h s)) of
        Some e \<Rightarrow> (e, h)
      | None \<Rightarrow> (case AddEdge s dest h of (e, h') \<Rightarrow>
          (e, setEdgeMetadata e ((EdgeMetadata (edges h' e))(''protocol'' \<mapsto> VString proto)) h')))"

definition hasPrefix :: "string \<Rightarrow> string \<Rightarrow> bool" where
  "hasPrefix s p = (take (length p) s = p)"

fun addHttpTraffic ::
  "idfun \<Rightarrow> trafficMap \<Rightarrow> real \<Rightarrow> string \<Rightarrow> labels \<Rightarrow> labels \<Rightarrow> options \<Rightarrow> heap
     \<Rightarrow> error + ((nodeRef \<times> nodeRef) \<times> trafficMap \<times> heap)" where
  "addHttpTraffic idf trafficMap val code (sourceWlNs, sourceWl, sourceApp, sourceVer, sourceSvcName)
       (destSvcNs, destWl, destApp, destVer, destSvcName) opts h =
     (case addNode idf trafficMap (sourceWlNs, sourceWl, sourceApp, sourceVer, sourceSvcName) opts h of
        ((s, sourceFound), tm1, h1) \<Rightarrow>
     (case addNode idf tm1 (destSvcNs, destWl, destApp, destVer, destSvcName) opts h1 of
        ((dest, destFound), tm2, h2) \<Rightarrow>
     bindE (addToDestServices (Metadata (nodes h2 dest)) destSvcName) (\<lambda>md.
     (case findOrAddEdge s dest ''protocol'' ''http'' (setNodeMetadata dest md h2) of (e, h4) \<Rightarrow>
     (let h5 = (if sourceFound then handleMisconfiguredLabels s sourceApp sourceVer val opts h4 else h4);
          h6 = (if destFound then handleMisconfiguredLabels dest destApp destVer val opts h5 else h5)
      in bindE (addToNodeMetadataValue s ''httpOut'' val h6) (\<lambda>h7.
         bindE (addToNodeMetadataValue dest ''httpIn'' val h7) (\<lambda>h8.
         bindE (addToEdgeMetadataValue e ''http'' val h8) (\<lambda>h9.
         bindE (if hasPrefix code ''3'' then
                  bindE (addToNodeMetadataValue dest ''httpIn3xx'' val h9)
                        (addToEdgeMetadataValue e ''http3xx'' val)
                else if hasPrefix code ''4'' then
                  bindE (addToNodeMetadataValue dest ''httpIn4xx'' val h9)
                        (addToEdgeMetadataValue e ''http4xx'' val)
                else if hasPrefix code ''5'' then
                  bindE (addToNodeMetadataValue dest ''httpIn5xx'' val h9)
                        (addToEdgeMetadataValue e ''http5xx'' val)
                else Inr h9) (\<lambda>h10.
         Inr ((s, dest), tm2, h10))))))))))"

fun addTcpTraffic ::
  "idfun \<Rightarrow> trafficMap \<Rightarrow> real \<Rightarrow> labels \<Rightarrow> labels \<Rightarrow> options \<Rightarrow> heap
     \<Rightarrow> error + ((nodeRef \<times> nodeRef) \<times> trafficMap \<times> heap)" where
  "addTcpTraffic idf trafficMap val (sourceWlNs, sourceWl, sourceApp, sourceVer, sourceSvcName)
       (destSvcNs, destWl, destApp, destVer, destSvcName) opts h =
     (case addNode idf trafficMap (sourceWlNs, sourceWl, sourceApp, sourceVer, sourceSvcName) opts h of
        ((s, sourceFound), tm1, h1) \<Rightarrow>
     (case addNode idf tm1 (destSvcNs, destWl, destApp, destVer, destSvcName) opts h1 of
        ((dest, destFound), tm2, h2) \<Rightarrow>
     bindE (addToDestServices (Metadata (nodes h2 dest)) destSvcName) (\<lambda>md.
     (case findOrAddEdge s dest ''procotol'' ''tcp'' (setNodeMetadata dest md h2) of (e, h4) \<Rightarrow>
     (let h5 = (if sourceFound then handleMisconfiguredLabels s sourceApp sourceVer val opts h4 else h4);
          h6 = (if destFound then handleMisconfiguredLabels dest destApp destVer val opts h5 else h5)
      in bindE (addToNodeMetadataValue s ''tcpOut'' val h6) (\<lambda>h7.
         bindE (addToNodeMetadataValue dest ''tcpIn'' val h7) (\<lambda>h8.
         bindE (addToEdgeMetadataValue e ''tcp'' val h8) (\<lambda>h9.
         Inr ((s, dest), tm2, h9)))))))))"

text \<open>The body of the loop of \<^verbatim>\<open>populateTrafficMapHttp\<close> for a sample that has the five
  labels, then the loop. Whatever else the sample carries, the code handed on is the
  constant \<^verbatim>\<open>"200"\<close>, and the app and version labels are the constant \<^verbatim>\<open>"Unknown"\<close>.\<close>

fun populateTrafficMapHttp_sample ::
  "idfun \<Rightarrow> trafficMap \<Rightarrow> real \<Rightarrow> labels \<Rightarrow> options \<Rightarrow> heap \<Rightarrow> error + (trafficMap \<times> heap)" where
  "populateTrafficMapHttp_sample idf trafficMap val
       (sourceWlNs, sourceWl, destSvcNs, destSvcName, destWl) opts h =
     (let sourceApp = ''Unknown''; sourceVer = ''Unknown''; destApp = ''Unknown'';
          destVer = ''Unknown''; code = ''200''
      in if InjectServiceNodes opts then
           (case idf (destSvcNs, destWl, destApp, destVer, destSvcName) (GraphType opts) of
              (_, destNodeType) \<Rightarrow>
                if destNodeType \<noteq> NodeTypeService then
                  bindE (addHttpTraffic idf trafficMap val code
                           (sourceWlNs, sourceWl, sourceApp, sourceVer, [])
                           (destSvcNs, [], [], [], destSvcName) opts h) (\<lambda>(_, tm1, h1).
                  bindE (addHttpTraffic idf tm1 val code
                           (destSvcNs, [], [], [], destSvcName)
                           (destSvcNs, destWl, destApp, destVer, destSvcName) opts h1) (\<lambda>(_, tm2, h2).
                  Inr (tm2, h2)))
                else
                  bindE (addHttpTraffic idf trafficMap val code
                           (sourceWlNs, sourceWl, sourceApp, sourceVer, [])
                           (destSvcNs, destWl, destApp, destVer, destSvcName) opts h) (\<lambda>(_, tm1, h1).
                  Inr (tm1, h1)))
         else
           bindE (addHttpTraffic idf trafficMap val code
                    (sourceWlNs, sourceWl, sourceApp, sourceVer, [])
                    (destSvcNs, destWl, destApp, destVer, destSvcName) opts h) (\<lambda>(_, tm1, h1).
           Inr (tm1, h1)))"

fun populateTrafficMapHttp ::
  "idfun \<Rightarrow> trafficMap \<Rightarrow> sample list \<Rightarrow> options \<Rightarrow> heap \<Rightarrow> error + (trafficMap \<times> heap)" where
  "populateTrafficMapHttp idf trafficMap [] opts h = Inr (trafficMap, h)"
| "populateTrafficMapHttp idf trafficMap (s # vector) opts h =
     (case (Metric s ''namespace'', Metric s ''deployment'', Metric s ''dst_namespace'',
            Metric s ''dst_service'', Metric s ''dst_deployment'') of
        (Some sourceWlNs, Some sourceWl, Some destSvcNs, Some destSvcName, Some destWl) \<Rightarrow>
          bindE (populateTrafficMapHttp_sample idf trafficMap (Value s)
                   (sourceWlNs, sourceWl, destSvcNs, destSvcName, destWl) opts h) (\<lambda>(tm1, h1).
          populateTrafficMapHttp idf tm1 vector opts h1)
      | _ \<Rightarrow> populateTrafficMapHttp idf trafficMap vector opts h)"

section \<open>Namespace merger\<close>

text \<open>Go's \<^verbatim>\<open>==\<close> on two interface values: absent entries are both nil and equal, values
  of different dynamic types differ, and two maps cannot be compared (a run-time panic).\<close>

fun ifaceEq :: "mdval option \<Rightarrow> mdval option \<Rightarrow> error + bool" where
  "ifaceEq (Some (VStringSet a)) (Some (VStringSet b)) = Inl PanicUncomparable"
| "ifaceEq x y = Inr (x = y)"

text \<open>The search loop shared by \<^verbatim>\<open>mergeTrafficMaps\<close> and \<^verbatim>\<open>reduceToServiceGraph\<close>: the first
  edge of \<open>es\<close> with the given destination id and, then, an equal protocol entry.\<close>

fun findMatchingEdge :: "heap \<Rightarrow> string \<Rightarrow> mdval option \<Rightarrow> edgeRef list \<Rightarrow> error + edgeRef option" where
  "findMatchingEdge h destID protocol [] = Inr None"
| "findMatchingEdge h destID protocol (e # es) =
     (if destID = ID (nodes h (Dest (edges h e))) then
        bindE (ifaceEq protocol (EdgeMetadata (edges h e) ''protocol'')) (\<lambda>same.
          if same then Inr (Some e) else findMatchingEdge h destID protocol es)
      else findMatchingEdge h destID protocol es)"

text \<open>The loop over the edges of the losing instance; the slice is read once, before
  the loop, and the surviving node's edges are read again at every step.\<close>

fun mergeEdges :: "nodeRef \<Rightarrow> edgeRef list \<Rightarrow> heap \<Rightarrow> error + heap" where
  "mergeEdges n [] h = Inr h"
| "mergeEdges n (nsEdge # rest) h =
     bindE (findMatchingEdge h (ID (nodes h (Dest (edges h nsEdge))))
              (EdgeMetadata (edges h nsEdge) ''protocol'') (Edges (nodes h n))) (\<lambda>dup.
       case dup of
         Some _ \<Rightarrow> mergeEdges n rest h
       | None \<Rightarrow> mergeEdges n rest (setNodeEdges n (Edges (nodes h n) @ [nsEdge]) h))"

fun mergeTrafficMaps :: "trafficMap \<Rightarrow> string \<Rightarrow> trafficMap \<Rightarrow> heap \<Rightarrow> error + (trafficMap \<times> heap)" where
  "mergeTrafficMaps trafficMap ns [] h = Inr (trafficMap, h)"
| "mergeTrafficMaps trafficMap ns ((nsId, nsNode) # rest) h =
     (case map_of trafficMap nsId of
        Some n \<Rightarrow>
          (if Namespace (nodes h nsNode) = ns then
             bindE (mergeEdges nsNode (Edges (nodes h n)) h)
               (mergeTrafficMaps (AList.update nsId nsNode trafficMap) ns rest)
           else
             bindE (mergeEdges n (Edges (nodes h nsNode)) h)
               (mergeTrafficMaps trafficMap ns rest))
      | None \<Rightarrow> mergeTrafficMaps (AList.update nsId nsNode trafficMap) ns rest h)"

section \<open>Node classifier\<close>

fun isOutside_loop :: "string \<Rightarrow> (string \<times> namespaceInfo) list \<Rightarrow> bool" where
  "isOutside_loop namespace [] = True"
| "isOutside_loop namespace ((_, ns) # rest) =
     (if namespace = Name ns then False else isOutside_loop namespace rest)"

definition isOutside :: "node \<Rightarrow> (string \<times> namespaceInfo) list \<Rightarrow> bool" where
  "isOutside n namespaces =
     (if Namespace n = Unknown then False else isOutside_loop (Namespace n) namespaces)"

definition isInaccessible :: "node \<Rightarrow> (string \<rightharpoonup> int) \<Rightarrow> bool" where
  "isInaccessible n accessibleNamespaces =
     (case accessibleNamespaces (Namespace n) of None \<Rightarrow> True | Some _ \<Rightarrow> False)"

text \<open>The body of the loop of \<^verbatim>\<open>markOutsideOrInaccessible\<close> on the metadata of one node:
  the switch on the node type, then the test of \<^verbatim>\<open>isOutside\<close>, whose type assertion
  \<^verbatim>\<open>isOutsider.(bool)\<close> panics on a value that is no boolean.\<close>

definition markNode :: "node \<Rightarrow> options \<Rightarrow> error + metadata" where
  "markNode n opts =
     (let md = Metadata n;
          md1 = (case NodeType n of
                   NodeTypeUnknown \<Rightarrow> md(''isInaccessible'' \<mapsto> VBool True)
                 | NodeTypeService \<Rightarrow>
                     (case md ''isServiceEntry'' of
                        Some _ \<Rightarrow> md(''isInaccessible'' \<mapsto> VBool True)
                      | None \<Rightarrow> if isOutside n (Namespaces opts)
                                then md(''isOutside'' \<mapsto> VBool True) else md)
                 | _ \<Rightarrow> if isOutside n (Namespaces opts)
                        then md(''isOutside'' \<mapsto> VBool True) else md)
      in case md1 ''isOutside'' of
           None \<Rightarrow> Inr md1
         | Some (VBool isOutsider) \<Rightarrow>
             Inr (if isOutsider \<and> md1 ''isInaccessible'' = None
                     \<and> isInaccessible n (AccessibleNamespaces opts)
                  then md1(''isInaccessible'' \<mapsto> VBool True) else md1)
         | Some _ \<Rightarrow> Inl PanicTypeAssertion)"

fun markOutsideOrInaccessible :: "trafficMap \<Rightarrow> options \<Rightarrow> heap \<Rightarrow> error + heap" where
  "markOutsideOrInaccessible [] opts h = Inr h"
| "markOutsideOrInaccessible ((nid, n) # rest) opts h =
     bindE (markNode (nodes h n) opts) (\<lambda>md.
       markOutsideOrInaccessible rest opts (setNodeMetadata n md h))"

section \<open>Graph reducer\<close>

definition checkNodeType :: "nodeType \<Rightarrow> node \<Rightarrow> error + unit" where
  "checkNodeType expected n =
     (if expected \<noteq> NodeType n then Inl (ErrExpectedNodeType expected (NodeType n)) else Inr ())"

text \<open>The guarded additions of \<^verbatim>\<open>addServiceGraphTraffic\<close> (\<^verbatim>\<open>if val, ok := source.Metadata[k]; ok\<close>);
  the source edge is read in the store as it is at that moment.\<close>

definition addIfPresent :: "edgeRef \<Rightarrow> edgeRef \<Rightarrow> string \<Rightarrow> heap \<Rightarrow> error + heap" where
  "addIfPresent target src k h =
     (case EdgeMetadata (edges h src) k of
        None \<Rightarrow> Inr h
      | Some (VFloat val) \<Rightarrow> addToEdgeMetadataValue target k val h
      | Some _ \<Rightarrow> Inl PanicTypeAssertion)"

definition addRequired :: "edgeRef \<Rightarrow> edgeRef \<Rightarrow> string \<Rightarrow> heap \<Rightarrow> error + heap" where
  "addRequired target src k h =
     (case EdgeMetadata (edges h src) k of
        Some (VFloat val) \<Rightarrow> addToEdgeMetadataValue target k val h
      | _ \<Rightarrow> Inl PanicTypeAssertion)"

definition addServiceGraphTraffic :: "edgeRef \<Rightarrow> edgeRef \<Rightarrow> heap \<Rightarrow> error + heap" where
  "addServiceGraphTraffic target src h =
     (let protocol = EdgeMetadata (edges h target) ''protocol'' in
      bindE (if protocol = Some (VString ''http'') then
               bindE (addRequired target src ''http'' h) (\<lambda>h1.
               bindE (addIfPresent target src ''http3xx'' h1) (\<lambda>h2.
               bindE (addIfPresent target src ''http4xx'' h2) (\<lambda>h3.
               addIfPresent target src ''http5xx'' h3)))
             else if protocol = Some (VString ''tcp'') then
               addRequired target src ''tcp'' h
             else Inl (ErrUnexpectedEdgeProtocol protocol)) (\<lambda>h4.
      case EdgeMetadata (edges h4 src) ''responseTime'' of
        None \<Rightarrow> Inr h4
      | Some (VFloat responseTime) \<Rightarrow>
          bindE (averageMetadataValue (EdgeMetadata (edges h4 target)) ''responseTime'' responseTime)
            (\<lambda>md. Inr (setEdgeMetadata target md h4))
      | Some _ \<Rightarrow> Inl PanicTypeAssertion))"

text \<open>The three nested loops of \<^verbatim>\<open>reduceToServiceGraph\<close>, innermost first: over the edges
  of one workload, over the former edges of one service node, over the map.\<close>

fun reduceServiceEdges :: "nodeRef \<Rightarrow> edgeRef list \<Rightarrow> heap \<Rightarrow> error + heap" where
  "reduceServiceEdges n [] h = Inr h"
| "reduceServiceEdges n (serviceEdge # rest) h =
     (let childService = Dest (edges h serviceEdge) in
      bindE (checkNodeType NodeTypeService (nodes h childService)) (\<lambda>_.
      bindE (findMatchingEdge h (ID (nodes h childService))
               (EdgeMetadata (edges h serviceEdge) ''protocol'') (Edges (nodes h n))) (\<lambda>found.
      bindE (case found of
               None \<Rightarrow> Inr (setNodeEdges n (Edges (nodes h n) @ [serviceEdge]) h)
             | Some e \<Rightarrow> addServiceGraphTraffic e serviceEdge h)
        (reduceServiceEdges n rest))))"

fun reduceWorkloadEdges :: "nodeRef \<Rightarrow> edgeRef list \<Rightarrow> heap \<Rightarrow> error + heap" where
  "reduceWorkloadEdges n [] h = Inr h"
| "reduceWorkloadEdges n (workloadEdge # rest) h =
     (let workload = Dest (edges h workloadEdge) in
      bindE (checkNodeType NodeTypeWorkload (nodes h workload)) (\<lambda>_.
      bindE (reduceServiceEdges n (Edges (nodes h workload)) h)
        (reduceWorkloadEdges n rest)))"

fun reduceNodes :: "trafficMap \<Rightarrow> trafficMap \<Rightarrow> heap \<Rightarrow> error + (trafficMap \<times> heap)" where
  "reduceNodes [] reducedTrafficMap h = Inr (reducedTrafficMap, h)"
| "reduceNodes ((nid, n) # rest) reducedTrafficMap h =
     (if NodeType (nodes h n) \<noteq> NodeTypeService then
        (case Metadata (nodes h n) ''isRoot'' of
           None \<Rightarrow> reduceNodes rest reducedTrafficMap h
         | Some (VBool val) \<Rightarrow>
             reduceNodes rest (if val then AList.update nid n reducedTrafficMap else reducedTrafficMap) h
         | Some _ \<Rightarrow> Inl PanicTypeAssertion)
      else
        bindE (reduceWorkloadEdges n (Edges (nodes h n)) (setNodeEdges n [] h))
          (reduceNodes rest (AList.update nid n reducedTrafficMap)))"

definition reduceToServiceGraph :: "trafficMap \<Rightarrow> heap \<Rightarrow> error + (trafficMap \<times> heap)" where
  "reduceToServiceGraph trafficMap h = reduceNodes trafficMap [] h"
section \<open>Predicates of the statements and example stores\<close>

definition outsideFlagTyped :: "metadata \<Rightarrow> bool" where
  "outsideFlagTyped md =
     (case md ''isOutside'' of None \<Rightarrow> True | Some (VBool _) \<Rightarrow> True | Some _ \<Rightarrow> False)"

definition responseTimeSet :: "(string \<rightharpoonup> real) \<Rightarrow> heap \<Rightarrow> edgeRef \<Rightarrow> bool" where
  "responseTimeSet responseTimeMap h e =
     (EdgeMetadata (edges h e) ''responseTime''
        = Some (VFloat (lookupFloat responseTimeMap (responseTimeKey h e))))"

definition blankNode :: node where
  "blankNode = \<lparr>ID = [], NodeType = NodeTypeUnknown, Namespace = [], Workload = [], App = [],
      Version = [], Service = [], Edges = [], Metadata = Map.empty\<rparr>"

definition blankEdge :: edge where
  "blankEdge = \<lparr>Source = 0, Dest = 0, EdgeMetadata = Map.empty\<rparr>"

definition emptyHeap :: heap where
  "emptyHeap = \<lparr>nodes = (\<lambda>_. blankNode), edges = (\<lambda>_. blankEdge), nextNode = 0, nextEdge = 0\<rparr>"

definition workloadOptions :: options where
  "workloadOptions = \<lparr>GraphType = ''workload'', InjectServiceNodes = False, IncludeIstio = False,
      VendorOptions_GraphType = ''workload'',
      Namespaces = [(''bookinfo'', \<lparr>Name = ''bookinfo'', Duration = 600\<rparr>)],
      AccessibleNamespaces = [''bookinfo'' \<mapsto> 0]\<rparr>"

definition unknownToReviews :: heap where
  "unknownToReviews =
     \<lparr>nodes = (\<lambda>_. blankNode)
        (0 := blankNode\<lparr>ID := ''unknown'', NodeType := NodeTypeUnknown, Namespace := ''unknown'',
                Edges := [0]\<rparr>,
         1 := blankNode\<lparr>ID := ''wl_other_reviews-v1'', NodeType := NodeTypeWorkload,
                Namespace := ''other'', Workload := ''reviews-v1'', Edges := [1]\<rparr>),
      edges = (\<lambda>_. blankEdge)
        (0 := \<lparr>Source = 0, Dest = 1,
                EdgeMetadata = [''protocol'' \<mapsto> VString ''http'', ''http'' \<mapsto> VFloat 5]\<rparr>,
         1 := \<lparr>Source = 1, Dest = 0,
                EdgeMetadata = [''protocol'' \<mapsto> VString ''http'', ''http'' \<mapsto> VFloat 2,
                                ''responseTime'' \<mapsto> VFloat 40]\<rparr>),
      nextNode = 2, nextEdge = 2\<rparr>"

definition unknownToReviewsMap :: trafficMap where
  "unknownToReviewsMap = [(''unknown'', 0), (''wl_other_reviews-v1'', 1)]"

subsection \<open>Totals of the counters and the invariant of the builder\<close>

text \<open>The number under a key of a metadata map (\<open>0\<close> when the key is absent), the total of a
  key over the nodes of a map, the edges of all nodes of a map in order, and the total of
  a key over these edges.\<close>

definition fval :: "metadata \<Rightarrow> string \<Rightarrow> real" where
  "fval md k = (case md k of Some (VFloat x) \<Rightarrow> x | _ \<Rightarrow> 0)"

definition nodeSum :: "string \<Rightarrow> trafficMap \<Rightarrow> heap \<Rightarrow> real" where
  "nodeSum k tm h = sum_list (map (\<lambda>(nid, n). fval (Metadata (nodes h n)) k) tm)"

definition allEdges :: "trafficMap \<Rightarrow> heap \<Rightarrow> edgeRef list" where
  "allEdges tm h = concat (map (\<lambda>(nid, n). Edges (nodes h n)) tm)"

definition edgeSum :: "string \<Rightarrow> trafficMap \<Rightarrow> heap \<Rightarrow> real" where
  "edgeSum k tm h = sum_list (map (\<lambda>e. fval (EdgeMetadata (edges h e)) k) (allEdges tm h))"

text \<open>The builder writes numbers under every key but three: \<^verbatim>\<open>destServices\<close> (a set),
  \<^verbatim>\<open>isMisconfigured\<close> (a string) on nodes and \<^verbatim>\<open>protocol\<close> (a string) on edges. While it runs,
  every node of the map has been allocated once, below \<open>nextNode\<close>, and every edge belongs
  to one node of the map, once, below \<open>nextEdge\<close>.\<close>

definition floatOrNone :: "mdval option \<Rightarrow> bool" where
  "floatOrNone v = (case v of None \<Rightarrow> True | Some (VFloat _) \<Rightarrow> True | Some _ \<Rightarrow> False)"

definition nodeTyped :: "metadata \<Rightarrow> bool" where
  "nodeTyped md =
     ((\<forall>k. k \<noteq> ''destServices'' \<and> k \<noteq> ''isMisconfigured'' \<longrightarrow> floatOrNone (md k))
      \<and> (case md ''destServices'' of None \<Rightarrow> True | Some (VStringSet _) \<Rightarrow> True | Some _ \<Rightarrow> False)
      \<and> (case md ''isMisconfigured'' of None \<Rightarrow> True | Some (VString _) \<Rightarrow> True | Some _ \<Rightarrow> False))"

definition edgeTyped :: "metadata \<Rightarrow> bool" where
  "edgeTyped md = (\<forall>k. k \<noteq> ''protocol'' \<longrightarrow> floatOrNone (md k))"

definition builderInv :: "trafficMap \<Rightarrow> heap \<Rightarrow> bool" where
  "builderInv tm h =
     (distinct (map snd tm) \<and> (\<forall>n \<in> snd ` set tm. n < nextNode h \<and> nodeTyped (Metadata (nodes h n)))
      \<and> distinct (allEdges tm h)
      \<and> (\<forall>e \<in> set (allEdges tm h). e < nextEdge h \<and> edgeTyped (EdgeMetadata (edges h e))))"

text \<open>A part of the builder's run takes a map and a store satisfying the invariant to
  another, adds \<open>dN k\<close> to the total of every key \<open>k\<close> over the nodes and \<open>dE k\<close> to its total
  over the edges, and removes no node and no edge.\<close>

definition builderStep ::
  "trafficMap \<Rightarrow> heap \<Rightarrow> trafficMap \<Rightarrow> heap \<Rightarrow> (string \<Rightarrow> real) \<Rightarrow> (string \<Rightarrow> real) \<Rightarrow> bool" where
  "builderStep tm h tm' h' dN dE =
     (builderInv tm' h'
      \<and> (\<forall>k. nodeSum k tm' h' = nodeSum k tm h + dN k)
      \<and> (\<forall>k. edgeSum k tm' h' = edgeSum k tm h + dE k)
      \<and> snd ` set tm \<subseteq> snd ` set tm'
      \<and> set (allEdges tm h) \<subseteq> set (allEdges tm' h'))"

text \<open>What one call of \<^verbatim>\<open>addHttpTraffic\<close> adds, per metadata key, to the nodes and to the edges.\<close>

definition httpNodeDelta :: "string \<Rightarrow> real \<Rightarrow> string \<Rightarrow> real" where
  "httpNodeDelta code val k =
     (if k = ''httpOut'' then val else 0) + (if k = ''httpIn'' then val else 0)
     + (if hasPrefix code ''3'' then (if k = ''httpIn3xx'' then val else 0)
        else if hasPrefix code ''4'' then (if k = ''httpIn4xx'' then val else 0)
        else if hasPrefix code ''5'' then (if k = ''httpIn5xx'' then val else 0)
        else 0)"

definition httpEdgeDelta :: "string \<Rightarrow> real \<Rightarrow> string \<Rightarrow> real" where
  "httpEdgeDelta code val k =
     (if k = ''http'' then val else 0)
     + (if hasPrefix code ''3'' then (if k = ''http3xx'' then val else 0)
        else if hasPrefix code ''4'' then (if k = ''http4xx'' then val else 0)
        else if hasPrefix code ''5'' then (if k = ''http5xx'' then val else 0)
        else 0)"

text \<open>What the samples of a vector add: the same amount to \<^verbatim>\<open>httpOut\<close>, to \<^verbatim>\<open>httpIn\<close>
  and to \<^verbatim>\<open>http\<close>, and nothing under any other key.\<close>

definition sampleNodeDelta :: "real \<Rightarrow> string \<Rightarrow> real" where
  "sampleNodeDelta x k = (if k = ''httpOut'' \<or> k = ''httpIn'' then x else 0)"

definition sampleEdgeDelta :: "real \<Rightarrow> string \<Rightarrow> real" where
  "sampleEdgeDelta x k = (if k = ''http'' then x else 0)"

subsection \<open>Observations and example inputs\<close>

text \<open>The outgoing edges of the node stored under an id: for each edge in order, the id of
  its destination and the entries of its metadata under the given keys; and the entries of
  the node's own metadata.\<close>

definition edgesOf :: "trafficMap \<Rightarrow> heap \<Rightarrow> string \<Rightarrow> string list \<Rightarrow> (string \<times> mdval option list) list" where
  "edgesOf tm h nid ks =
     (case map_of tm nid of
        None \<Rightarrow> []
      | Some n \<Rightarrow> map (\<lambda>e. (ID (nodes h (Dest (edges h e))), map (EdgeMetadata (edges h e)) ks))
                    (Edges (nodes h n)))"

definition metadataOf :: "trafficMap \<Rightarrow> heap \<Rightarrow> string \<Rightarrow> string list \<Rightarrow> mdval option list" where
  "metadataOf tm h nid ks =
     (case map_of tm nid of None \<Rightarrow> [] | Some n \<Rightarrow> map (Metadata (nodes h n)) ks)"

definition productpage :: labels where
  "productpage = (''bookinfo'', ''productpage-v1'', ''productpage'', ''v1'', [])"

definition mongodb :: labels where
  "mongodb = (''bookinfo'', ''mongodb-v1'', ''mongodb'', ''v1'', ''mongodb'')"

text \<open>Two samples with the same source and the same destination, through
  \<^verbatim>\<open>addTcpTraffic\<close> and through \<^verbatim>\<open>addHttpTraffic\<close>, from the empty map.\<close>

definition twoTcpSamples :: "error + (trafficMap \<times> heap)" where
  "twoTcpSamples =
     bindE (addTcpTraffic Id [] 7 productpage mongodb workloadOptions emptyHeap) (\<lambda>(_, tm1, h1).
     bindE (addTcpTraffic Id tm1 5 productpage mongodb workloadOptions h1) (\<lambda>(_, tm2, h2).
     Inr (tm2, h2)))"

definition twoHttpSamples :: "error + (trafficMap \<times> heap)" where
  "twoHttpSamples =
     bindE (addHttpTraffic Id [] 7 ''200'' productpage mongodb workloadOptions emptyHeap) (\<lambda>(_, tm1, h1).
     bindE (addHttpTraffic Id tm1 5 ''200'' productpage mongodb workloadOptions h1) (\<lambda>(_, tm2, h2).
     Inr (tm2, h2)))"

text \<open>An accepted sample that carries a response code of the 5xx class.\<close>

definition sample503 :: sample where
  "sample503 = \<lparr>Metric = [''namespace'' \<mapsto> ''bookinfo'', ''deployment'' \<mapsto> ''productpage-v1'',
       ''dst_namespace'' \<mapsto> ''bookinfo'', ''dst_service'' \<mapsto> ''reviews'',
       ''dst_deployment'' \<mapsto> ''reviews-v1'', ''response_code'' \<mapsto> ''503''], Value = 5\<rparr>"

subsection \<open>Example graphs for the reducer\<close>

definition serviceGraphNode :: "string \<Rightarrow> nodeType \<Rightarrow> edgeRef list \<Rightarrow> node" where
  "serviceGraphNode nid t es = blankNode\<lparr>ID := nid, NodeType := t, Namespace := ''bookinfo'', Edges := es\<rparr>"

definition counterEdge :: "nodeRef \<Rightarrow> nodeRef \<Rightarrow> string \<Rightarrow> real \<Rightarrow> edge" where
  "counterEdge s d proto v =
     \<lparr>Source = s, Dest = d, EdgeMetadata = [''protocol'' \<mapsto> VString proto, ''http'' \<mapsto> VFloat v]\<rparr>"

text \<open>Service S1 (node 0) calls the workloads W (node 1) and W' (node 3), which both call
  service S2 (node 2); the edges out of the workloads carry the protocol \<open>proto\<close>.\<close>

definition twoWorkloads :: "string \<Rightarrow> heap" where
  "twoWorkloads proto =
     \<lparr>nodes = (\<lambda>_. blankNode)
        (0 := serviceGraphNode ''svc_bookinfo_productpage'' NodeTypeService [0, 2],
         1 := serviceGraphNode ''wl_bookinfo_reviews-v1'' NodeTypeWorkload [1],
         2 := serviceGraphNode ''svc_bookinfo_ratings'' NodeTypeService [],
         3 := serviceGraphNode ''wl_bookinfo_reviews-v2'' NodeTypeWorkload [3]),
      edges = (\<lambda>_. blankEdge)
        (0 := counterEdge 0 1 ''http'' 100, 1 := counterEdge 1 2 proto 100,
         2 := counterEdge 0 3 ''http'' 50, 3 := counterEdge 3 2 proto 50),
      nextNode = 4, nextEdge = 4\<rparr>"

definition twoWorkloadsMap :: trafficMap where
  "twoWorkloadsMap = [(''svc_bookinfo_productpage'', 0), (''wl_bookinfo_reviews-v1'', 1),
      (''svc_bookinfo_ratings'', 2), (''wl_bookinfo_reviews-v2'', 3)]"

text \<open>The same without the second workload.\<close>

definition oneWorkload :: "string \<Rightarrow> heap" where
  "oneWorkload proto = setNodeEdges 0 [0] (twoWorkloads proto)"

definition oneWorkloadMap :: trafficMap where
  "oneWorkloadMap = [(''svc_bookinfo_productpage'', 0), (''wl_bookinfo_reviews-v1'', 1),
      (''svc_bookinfo_ratings'', 2)]"

text \<open>What is observed of a reduced graph: its node ids, and the edges of S1 with their
  protocol and \<^verbatim>\<open>http\<close> counter.\<close>

definition reducedView :: "error + (trafficMap \<times> heap) \<Rightarrow> error + (string list \<times> (string \<times> mdval option list) list)" where
  "reducedView r =
     (case r of
        Inl e \<Rightarrow> Inl e
      | Inr (tm, h) \<Rightarrow> Inr (map fst tm, edgesOf tm h ''svc_bookinfo_productpage'' [''protocol'', ''http'']))"

section \<open>Running averages\<close>

lemma averageMetadataValue_step:
  assumes "md (k @ ''_total'') = Some (VFloat t)" "md (k @ ''_count'') = Some (VFloat c)"
  shows "averageMetadataValue md k v =
           Inr (md(k @ ''_total'' \<mapsto> VFloat (v + t), k @ ''_count'' \<mapsto> VFloat (1 + c),
                   k \<mapsto> VFloat ((v + t) / (1 + c))))"
  using assms by (simp add: averageMetadataValue_def bindE_def Let_def)

lemma averageMetadataValue_first:
  assumes "md (k @ ''_total'') = None" "md (k @ ''_count'') = None"
  shows "averageMetadataValue md k v =
           Inr (md(k @ ''_total'' \<mapsto> VFloat v, k @ ''_count'' \<mapsto> VFloat 1, k \<mapsto> VFloat (v / 1)))"
  using assms by (simp add: averageMetadataValue_def bindE_def Let_def)

lemma averageMetadataValues_running:
  assumes "md (k @ ''_total'') = Some (VFloat t)" "md (k @ ''_count'') = Some (VFloat c)"
  shows "\<exists>md'. averageMetadataValues md k vs = Inr md'
           \<and> md' (k @ ''_total'') = Some (VFloat (t + sum_list vs))
           \<and> md' (k @ ''_count'') = Some (VFloat (c + real (length vs)))
           \<and> (vs \<noteq> [] \<longrightarrow> md' k = Some (VFloat ((t + sum_list vs) / (c + real (length vs)))))"
  using assms
proof (induction vs arbitrary: md t c)
  case Nil
  then show ?case by simp
next
  case (Cons v vs)
  let ?md1 = "md(k @ ''_total'' \<mapsto> VFloat (v + t), k @ ''_count'' \<mapsto> VFloat (1 + c),
                   k \<mapsto> VFloat ((v + t) / (1 + c)))"
  have step: "averageMetadataValue md k v = Inr ?md1"
    using Cons.prems by (rule averageMetadataValue_step)
  have t1: "?md1 (k @ ''_total'') = Some (VFloat (v + t))" by simp
  have c1: "?md1 (k @ ''_count'') = Some (VFloat (1 + c))" by simp
  from Cons.IH[OF t1 c1] obtain md' where
    r: "averageMetadataValues ?md1 k vs = Inr md'"
    and rt: "md' (k @ ''_total'') = Some (VFloat (v + t + sum_list vs))"
    and rc: "md' (k @ ''_count'') = Some (VFloat (1 + c + real (length vs)))"
    and rk: "vs \<noteq> [] \<longrightarrow> md' k = Some (VFloat ((v + t + sum_list vs) / (1 + c + real (length vs))))"
    by blast
  have k1: "vs = [] \<Longrightarrow> md' k = Some (VFloat ((v + t) / (1 + c)))"
    using r by auto
  show ?case
    using step r rt rc rk k1 by (cases "vs = []") (simp_all add: bindE_def ac_simps)
qed

lemma averageResponseTimes_running:
  assumes "m (k @ ''_total'') = Some t" "m (k @ ''_count'') = Some c"
  shows "averageResponseTimes m k vs (k @ ''_total'') = Some (t + sum_list vs)
       \<and> averageResponseTimes m k vs (k @ ''_count'') = Some (c + real (length vs))
       \<and> (vs \<noteq> [] \<longrightarrow> averageResponseTimes m k vs k = Some ((t + sum_list vs) / (c + real (length vs))))"
  using assms
proof (induction vs arbitrary: m t c)
  case Nil
  then show ?case by simp
next
  case (Cons v vs)
  let ?m1 = "averageResponseTime m k v"
  have t1: "?m1 (k @ ''_total'') = Some (v + t)" 
    using Cons.prems by (simp add: averageResponseTime_def Let_def)
  have c1: "?m1 (k @ ''_count'') = Some (1 + c)"
    using Cons.prems by (simp add: averageResponseTime_def Let_def)
  have k1: "?m1 k = Some ((v + t) / (1 + c))"
    using Cons.prems by (simp add: averageResponseTime_def Let_def)
  from Cons.IH[OF t1 c1] k1 show ?case
    by (cases "vs = []") (simp_all add: ac_simps)
qed

text \<open>
  C4. Running-average correctness: when the contributions \<open>v1..vn\<close> (\<open>n > 0\<close>) are supplied
  one after the other to \<^verbatim>\<open>averageMetadataValue\<close>, and likewise to \<^verbatim>\<open>averageResponseTime\<close>,
  under one key \<open>k\<close> of a map that holds no shadow entry of \<open>k\<close> yet, every call returns, the
  value stored at \<open>k\<close> is \<open>(v1 + ... + vn) / n\<close>, the entry \<open>k_total\<close> holds the sum and the
  entry \<open>k_count\<close> holds \<open>n\<close>.
\<close>

theorem running_average:
  assumes "vs \<noteq> []"
  shows "(md (k @ ''_total'') = None \<and> md (k @ ''_count'') = None \<longrightarrow>
           (\<exists>md'. averageMetadataValues md k vs = Inr md'
              \<and> md' k = Some (VFloat (sum_list vs / real (length vs)))
              \<and> md' (k @ ''_total'') = Some (VFloat (sum_list vs))
              \<and> md' (k @ ''_count'') = Some (VFloat (real (length vs)))))
       \<and> (m (k @ ''_total'') = None \<and> m (k @ ''_count'') = None \<longrightarrow>
              averageResponseTimes m k vs k = Some (sum_list vs / real (length vs))
            \<and> averageResponseTimes m k vs (k @ ''_total'') = Some (sum_list vs)
            \<and> averageResponseTimes m k vs (k @ ''_count'') = Some (real (length vs)))"
proof -
  obtain v ws where vs: "vs = v # ws" using assms by (cases vs) auto
  have A: "md (k @ ''_total'') = None \<and> md (k @ ''_count'') = None \<longrightarrow>
           (\<exists>md'. averageMetadataValues md k vs = Inr md'
              \<and> md' k = Some (VFloat (sum_list vs / real (length vs)))
              \<and> md' (k @ ''_total'') = Some (VFloat (sum_list vs))
              \<and> md' (k @ ''_count'') = Some (VFloat (real (length vs))))"
  proof
    assume fresh: "md (k @ ''_total'') = None \<and> md (k @ ''_count'') = None"
    let ?md1 = "md(k @ ''_total'' \<mapsto> VFloat v, k @ ''_count'' \<mapsto> VFloat 1, k \<mapsto> VFloat (v / 1))"
    have step: "averageMetadataValue md k v = Inr ?md1"
      using fresh by (simp add: averageMetadataValue_first)
    have t1: "?md1 (k @ ''_total'') = Some (VFloat v)" by simp
    have c1: "?md1 (k @ ''_count'') = Some (VFloat 1)" by simp
    from averageMetadataValues_running[OF t1 c1, of ws] obtain md' where
      r: "averageMetadataValues ?md1 k ws = Inr md'"
      and rt: "md' (k @ ''_total'') = Some (VFloat (v + sum_list ws))"
      and rc: "md' (k @ ''_count'') = Some (VFloat (1 + real (length ws)))"
      and rk: "ws \<noteq> [] \<longrightarrow> md' k = Some (VFloat ((v + sum_list ws) / (1 + real (length ws))))"
      by blast
    have k1: "ws = [] \<Longrightarrow> md' k = Some (VFloat v)" using r by auto
    show "\<exists>md'. averageMetadataValues md k vs = Inr md'
              \<and> md' k = Some (VFloat (sum_list vs / real (length vs)))
              \<and> md' (k @ ''_total'') = Some (VFloat (sum_list vs))
              \<and> md' (k @ ''_count'') = Some (VFloat (real (length vs)))"
      using step r rt rc rk k1 unfolding vs
      by (cases "ws = []") (simp_all add: bindE_def ac_simps)
  qed
  have B: "m (k @ ''_total'') = None \<and> m (k @ ''_count'') = None \<longrightarrow>
              averageResponseTimes m k vs k = Some (sum_list vs / real (length vs))
            \<and> averageResponseTimes m k vs (k @ ''_total'') = Some (sum_list vs)
            \<and> averageResponseTimes m k vs (k @ ''_count'') = Some (real (length vs))"
  proof
    assume fresh: "m (k @ ''_total'') = None \<and> m (k @ ''_count'') = None"
    let ?m1 = "averageResponseTime m k v"
    have t1: "?m1 (k @ ''_total'') = Some v"
      using fresh by (simp add: averageResponseTime_def Let_def)
    have c1: "?m1 (k @ ''_count'') = Some 1"
      using fresh by (simp add: averageResponseTime_def Let_def)
    have k1: "?m1 k = Some v"
      using fresh by (simp add: averageResponseTime_def Let_def)
    from averageResponseTimes_running[OF t1 c1, of ws] k1
    show "averageResponseTimes m k vs k = Some (sum_list vs / real (length vs))
            \<and> averageResponseTimes m k vs (k @ ''_total'') = Some (sum_list vs)
            \<and> averageResponseTimes m k vs (k @ ''_count'') = Some (real (length vs))"
      unfolding vs by (cases "ws = []") (simp_all add: ac_simps)
  qed
  from A B show ?thesis by blast
qed

theorem running_average_witness:
  "(\<exists>md'. averageMetadataValues Map.empty ''responseTime'' [10, 20, 60] = Inr md'
      \<and> md' ''responseTime'' = Some (VFloat 30)
      \<and> md' ''responseTime_total'' = Some (VFloat 90)
      \<and> md' ''responseTime_count'' = Some (VFloat 3))
   \<and> averageResponseTimes Map.empty ''responseTime'' [10, 20, 60] ''responseTime'' = Some 30
   \<and> averageResponseTimes Map.empty ''responseTime'' [10, 20, 60] ''responseTime_total'' = Some 90
   \<and> averageResponseTimes Map.empty ''responseTime'' [10, 20, 60] ''responseTime_count'' = Some 3"
  using running_average [of "[10, 20, 60]" Map.empty "''responseTime''" Map.empty]
  by simp
section \<open>The quantile of the response-time appender\<close>




section \<open>Unknown nodes in the classifier\<close>

lemma outsideFlagTyped_upd:
  "outsideFlagTyped md \<Longrightarrow> outsideFlagTyped (md(''isInaccessible'' \<mapsto> v))"
  "outsideFlagTyped (md(''isOutside'' \<mapsto> VBool b))"
  by (simp_all add: outsideFlagTyped_def)

lemma markNode_tail:
  assumes "outsideFlagTyped md1"
  shows "\<exists>md. (case md1 ''isOutside'' of
           None \<Rightarrow> Inr md1
         | Some (VBool isOutsider) \<Rightarrow>
             Inr (if isOutsider \<and> md1 ''isInaccessible'' = None \<and> c
                  then md1(''isInaccessible'' \<mapsto> VBool True) else md1)
         | Some _ \<Rightarrow> Inl PanicTypeAssertion) = Inr md \<and> outsideFlagTyped md"
proof (cases "md1 ''isOutside''")
  case None
  then show ?thesis using assms by simp
next
  case (Some v)
  with assms obtain b where "v = VBool b"
    by (cases v) (simp_all add: outsideFlagTyped_def)
  with Some assms show ?thesis by (simp add: outsideFlagTyped_upd)
qed

lemma markNode_returns:
  assumes "outsideFlagTyped (Metadata n)"
  shows "\<exists>md. markNode n opts = Inr md \<and> outsideFlagTyped md"
proof -
  let ?md1 = "(case NodeType n of
                   NodeTypeUnknown \<Rightarrow> (Metadata n)(''isInaccessible'' \<mapsto> VBool True)
                 | NodeTypeService \<Rightarrow>
                     (case Metadata n ''isServiceEntry'' of
                        Some _ \<Rightarrow> (Metadata n)(''isInaccessible'' \<mapsto> VBool True)
                      | None \<Rightarrow> if isOutside n (Namespaces opts)
                                then (Metadata n)(''isOutside'' \<mapsto> VBool True) else Metadata n)
                 | _ \<Rightarrow> if isOutside n (Namespaces opts)
                        then (Metadata n)(''isOutside'' \<mapsto> VBool True) else Metadata n)"
  have "outsideFlagTyped ?md1"
    using assms by (cases "NodeType n"; cases "Metadata n ''isServiceEntry''")
      (simp_all add: outsideFlagTyped_upd)
  from markNode_tail[OF this] show ?thesis
    unfolding markNode_def Let_def by blast
qed

lemma markNode_cases:
  "markNode n opts = Inr md \<Longrightarrow> NodeType n = NodeTypeUnknown \<Longrightarrow>
     (case ((Metadata n)(''isInaccessible'' \<mapsto> VBool True)) ''isOutside'' of
        None \<Rightarrow> md = (Metadata n)(''isInaccessible'' \<mapsto> VBool True)
      | Some (VBool b) \<Rightarrow> md = (Metadata n)(''isInaccessible'' \<mapsto> VBool True)
      | Some _ \<Rightarrow> False)"
  by (simp add: markNode_def Let_def split: option.splits mdval.splits)

lemma markNode_unknown:
  assumes "markNode n opts = Inr md" "NodeType n = NodeTypeUnknown"
  shows "md ''isInaccessible'' = Some (VBool True) \<and> md ''isOutside'' = Metadata n ''isOutside''"
  using markNode_cases[OF assms]
  by (simp split: option.splits mdval.splits)

lemma markNode_keeps_inaccessible:
  assumes "markNode n opts = Inr md" "NodeType n = NodeTypeUnknown"
  shows "md ''isInaccessible'' = Some (VBool True)"
  using markNode_unknown[OF assms] by simp

lemma setNodeMetadata_simps [simp]:
  "NodeType (nodes (setNodeMetadata n md h) a) = NodeType (nodes h a)"
  "Metadata (nodes (setNodeMetadata n md h) a) = (if a = n then md else Metadata (nodes h a))"
  "Edges (nodes (setNodeMetadata n md h) a) = Edges (nodes h a)"
  "ID (nodes (setNodeMetadata n md h) a) = ID (nodes h a)"
  "Namespace (nodes (setNodeMetadata n md h) a) = Namespace (nodes h a)"
  "edges (setNodeMetadata n md h) = edges h"
  "nextNode (setNodeMetadata n md h) = nextNode h"
  "nextEdge (setNodeMetadata n md h) = nextEdge h"
  by (simp_all add: setNodeMetadata_def)

lemma markOutsideOrInaccessible_frame:
  assumes "markOutsideOrInaccessible tm opts h = Inr h'"
  shows "NodeType (nodes h' a) = NodeType (nodes h a)
       \<and> (NodeType (nodes h a) = NodeTypeUnknown \<longrightarrow>
            Metadata (nodes h' a) ''isOutside'' = Metadata (nodes h a) ''isOutside''
          \<and> (Metadata (nodes h a) ''isInaccessible'' = Some (VBool True) \<longrightarrow>
               Metadata (nodes h' a) ''isInaccessible'' = Some (VBool True)))"
  using assms
proof (induction tm arbitrary: h)
  case Nil
  then show ?case by simp
next
  case (Cons p tm)
  obtain nid n where p: "p = (nid, n)" by (cases p)
  from Cons.prems obtain md where
    m: "markNode (nodes h n) opts = Inr md"
    and r: "markOutsideOrInaccessible tm opts (setNodeMetadata n md h) = Inr h'"
    by (auto simp add: p bindE_def split: sum.splits)
  note ih = Cons.IH[OF r]
  show ?case
  proof (cases "a = n \<and> NodeType (nodes h n) = NodeTypeUnknown")
    case True
    with markNode_unknown[OF m] ih show ?thesis by simp
  next
    case False
    with ih show ?thesis by auto
  qed
qed

text \<open>
  C9. \<^verbatim>\<open>markOutsideOrInaccessible\<close> returns on every map whose nodes hold a boolean, or
  nothing, under \<^verbatim>\<open>isOutside\<close> (the only entry it asserts a type of), whatever the requested
  and the accessible namespaces are; afterwards every node of kind Unknown in the map has
  \<^verbatim>\<open>isInaccessible = true\<close>, and its \<^verbatim>\<open>isOutside\<close> entry is what it was before: the pass
  never marks such a node as outside.
\<close>

theorem unknown_nodes_inaccessible:
  assumes "\<forall>(nid, n) \<in> set tm. outsideFlagTyped (Metadata (nodes h n))"
  shows "\<exists>h'. markOutsideOrInaccessible tm opts h = Inr h'
           \<and> (\<forall>(nid, n) \<in> set tm. NodeType (nodes h n) = NodeTypeUnknown \<longrightarrow>
                 Metadata (nodes h' n) ''isInaccessible'' = Some (VBool True)
               \<and> Metadata (nodes h' n) ''isOutside'' = Metadata (nodes h n) ''isOutside'')"
  using assms
proof (induction tm arbitrary: h)
  case Nil
  then show ?case by simp
next
  case (Cons p tm)
  obtain nid n where p: "p = (nid, n)" by (cases p)
  from Cons.prems have "outsideFlagTyped (Metadata (nodes h n))" by (simp add: p)
  from markNode_returns[OF this] obtain md where
    m: "markNode (nodes h n) opts = Inr md" and t: "outsideFlagTyped md" by blast
  let ?h1 = "setNodeMetadata n md h"
  have typed1: "\<forall>(nid, n) \<in> set tm. outsideFlagTyped (Metadata (nodes ?h1 n))"
    using Cons.prems t by auto
  from Cons.IH[OF typed1] obtain h' where
    r: "markOutsideOrInaccessible tm opts ?h1 = Inr h'"
    and rest: "\<forall>(nid, n) \<in> set tm. NodeType (nodes ?h1 n) = NodeTypeUnknown \<longrightarrow>
                 Metadata (nodes h' n) ''isInaccessible'' = Some (VBool True)
               \<and> Metadata (nodes h' n) ''isOutside'' = Metadata (nodes ?h1 n) ''isOutside''"
    by blast
  have run: "markOutsideOrInaccessible (p # tm) opts h = Inr h'"
    using m r by (simp add: p bindE_def)
  have first: "NodeType (nodes h n) = NodeTypeUnknown \<Longrightarrow>
                 Metadata (nodes h' n) ''isInaccessible'' = Some (VBool True)
               \<and> Metadata (nodes h' n) ''isOutside'' = Metadata (nodes h n) ''isOutside''"
    using markNode_unknown[OF m] markOutsideOrInaccessible_frame[OF r, of n] by simp
  have others: "\<And>nid' n'. (nid', n') \<in> set tm \<Longrightarrow> NodeType (nodes h n') = NodeTypeUnknown \<Longrightarrow>
                 Metadata (nodes h' n') ''isInaccessible'' = Some (VBool True)
               \<and> Metadata (nodes h' n') ''isOutside'' = Metadata (nodes h n') ''isOutside''"
  proof -
    fix nid' n' assume mem: "(nid', n') \<in> set tm" and u: "NodeType (nodes h n') = NodeTypeUnknown"
    from rest mem u have a: "Metadata (nodes h' n') ''isInaccessible'' = Some (VBool True)"
      and b: "Metadata (nodes h' n') ''isOutside'' = Metadata (nodes ?h1 n') ''isOutside''"
      by auto
    show "Metadata (nodes h' n') ''isInaccessible'' = Some (VBool True)
               \<and> Metadata (nodes h' n') ''isOutside'' = Metadata (nodes h n') ''isOutside''"
    proof (cases "n' = n")
      case True
      with first u show ?thesis by simp
    next
      case False
      with a b show ?thesis by simp
    qed
  qed
  show ?case using run first others by (auto simp add: p)
qed

theorem unknown_nodes_inaccessible_witness:
  "outsideFlagTyped (Metadata (nodes unknownToReviews 0))
   \<and> outsideFlagTyped (Metadata (nodes unknownToReviews 1))
   \<and> (\<exists>h'. markOutsideOrInaccessible unknownToReviewsMap workloadOptions unknownToReviews = Inr h'
         \<and> Metadata (nodes h' 0) ''isInaccessible'' = Some (VBool True)
         \<and> Metadata (nodes h' 0) ''isOutside'' = None)"
  using unknown_nodes_inaccessible [of unknownToReviewsMap unknownToReviews workloadOptions]
  by (simp add: unknownToReviewsMap_def unknownToReviews_def outsideFlagTyped_def blankNode_def)

section \<open>Response times on the edges\<close>

lemma setEdgeMetadata_simps [simp]:
  "nodes (setEdgeMetadata e md h) = nodes h"
  "Source (edges (setEdgeMetadata e md h) x) = Source (edges h x)"
  "Dest (edges (setEdgeMetadata e md h) x) = Dest (edges h x)"
  "EdgeMetadata (edges (setEdgeMetadata e md h) x) = (if x = e then md else EdgeMetadata (edges h x))"
  "nextNode (setEdgeMetadata e md h) = nextNode h"
  "nextEdge (setEdgeMetadata e md h) = nextEdge h"
  by (simp_all add: setEdgeMetadata_def)

lemma responseTimeKey_setEdgeMetadata [simp]:
  "responseTimeKey (setEdgeMetadata e md h) x = responseTimeKey h x"
  by (simp add: responseTimeKey_def)

lemma applyResponseTimeEdges_frame:
  "nodes (applyResponseTimeEdges es m h) = nodes h
   \<and> responseTimeKey (applyResponseTimeEdges es m h) x = responseTimeKey h x"
  by (induction es arbitrary: h) simp_all

lemma applyResponseTimeEdges_sets:
  "x \<in> set es \<or> responseTimeSet m h x \<Longrightarrow> responseTimeSet m (applyResponseTimeEdges es m h) x"
proof (induction es arbitrary: h)
  case Nil
  then show ?case by simp
next
  case (Cons e es)
  let ?h1 = "setEdgeMetadata e ((EdgeMetadata (edges h e))(''responseTime'' \<mapsto>
          VFloat (lookupFloat m (responseTimeKey h e)))) h"
  have "x \<in> set es \<or> responseTimeSet m ?h1 x"
    using Cons.prems by (auto simp add: responseTimeSet_def)
  from Cons.IH[OF this] show ?case by simp
qed

lemma applyResponseTime_frame:
  "nodes (applyResponseTime tm m h) = nodes h
   \<and> responseTimeKey (applyResponseTime tm m h) x = responseTimeKey h x"
proof (induction tm arbitrary: h)
  case Nil
  then show ?case by simp
next
  case (Cons p tm)
  obtain nid n where p: "p = (nid, n)" by (cases p)
  show ?case using Cons.IH applyResponseTimeEdges_frame by (simp add: p)
qed

lemma applyResponseTime_sets:
  "(\<exists>(nid, n) \<in> set tm. x \<in> set (Edges (nodes h n))) \<or> responseTimeSet m h x
     \<Longrightarrow> responseTimeSet m (applyResponseTime tm m h) x"
proof (induction tm arbitrary: h)
  case Nil
  then show ?case by simp
next
  case (Cons p tm)
  obtain nid n where p: "p = (nid, n)" by (cases p)
  let ?h1 = "applyResponseTimeEdges (Edges (nodes h n)) m h"
  have n1: "nodes ?h1 = nodes h" using applyResponseTimeEdges_frame by simp
  have "(\<exists>(nid, n) \<in> set tm. x \<in> set (Edges (nodes ?h1 n))) \<or> responseTimeSet m ?h1 x"
  proof (cases "x \<in> set (Edges (nodes h n)) \<or> responseTimeSet m h x")
    case True
    from applyResponseTimeEdges_sets[OF this] show ?thesis by simp
  next
    case False
    with Cons.prems show ?thesis by (auto simp add: p n1)
  qed
  from Cons.IH[OF this] show ?case by (simp add: p)
qed

text \<open>
  C10. After \<^verbatim>\<open>applyResponseTime\<close>, the last step of the appender on a non-empty map, every
  edge of every node of the map has a \<^verbatim>\<open>responseTime\<close> entry: the number that the
  response-time map holds under the key made of the source id, a blank and the destination
  id, and \<open>0\<close> when the map has no such key. Whatever the entry held before is overwritten.
\<close>

theorem applyResponseTime_every_edge:
  "\<forall>(nid, n) \<in> set tm. \<forall>e \<in> set (Edges (nodes (applyResponseTime tm m h) n)).
      EdgeMetadata (edges (applyResponseTime tm m h) e) ''responseTime''
        = Some (VFloat (case m (ID (nodes h (Source (edges h e))) @ '' '' @ ID (nodes h (Dest (edges h e)))) of
                          Some v \<Rightarrow> v | None \<Rightarrow> 0))"
proof (clarify)
  fix nid n e
  assume mem: "(nid, n) \<in> set tm" and e: "e \<in> set (Edges (nodes (applyResponseTime tm m h) n))"
  from e have "e \<in> set (Edges (nodes h n))" using applyResponseTime_frame by simp
  with mem have "(\<exists>(nid, n) \<in> set tm. e \<in> set (Edges (nodes h n)))" by auto
  then have "responseTimeSet m (applyResponseTime tm m h) e"
    using applyResponseTime_sets by blast
  then have "EdgeMetadata (edges (applyResponseTime tm m h) e) ''responseTime''
        = Some (VFloat (lookupFloat m (responseTimeKey h e)))"
    using applyResponseTime_frame[of tm m h e] by (simp add: responseTimeSet_def)
  then show "EdgeMetadata (edges (applyResponseTime tm m h) e) ''responseTime''
        = Some (VFloat (case m (ID (nodes h (Source (edges h e))) @ '' '' @ ID (nodes h (Dest (edges h e)))) of
                          Some v \<Rightarrow> v | None \<Rightarrow> 0))"
    by (simp add: lookupFloat_def responseTimeKey_def)
qed

theorem applyResponseTime_every_edge_witness:
  "EdgeMetadata (edges (applyResponseTime unknownToReviewsMap
       [''unknown wl_other_reviews-v1'' \<mapsto> 12] unknownToReviews) 0) ''responseTime'' = Some (VFloat 12)
   \<and> EdgeMetadata (edges (applyResponseTime unknownToReviewsMap
       [''unknown wl_other_reviews-v1'' \<mapsto> 12] unknownToReviews) 1) ''responseTime'' = Some (VFloat 0)"
  using applyResponseTime_every_edge [of unknownToReviewsMap
       "[''unknown wl_other_reviews-v1'' \<mapsto> 12]" unknownToReviews]
  by (simp add: unknownToReviewsMap_def unknownToReviews_def blankNode_def blankEdge_def
        setEdgeMetadata_def lookupFloat_def responseTimeKey_def)

section \<open>Counters of the traffic map builder\<close>

subsection \<open>Sums over lists\<close>

lemma sum_list_one_changed:
  fixes f f' :: "'a \<Rightarrow> real"
  assumes "distinct (map g xs)" "x0 \<in> set xs"
    and "\<And>x. x \<in> set xs \<Longrightarrow> g x \<noteq> g x0 \<Longrightarrow> f' x = f x"
    and "f' x0 = f x0 + v"
  shows "sum_list (map f' xs) = sum_list (map f xs) + v"
  using assms
proof (induction xs)
  case Nil
  then show ?case by simp
next
  case (Cons x xs)
  show ?case
  proof (cases "x = x0")
    case True
    have "\<And>y. y \<in> set xs \<Longrightarrow> f' y = f y"
    proof -
      fix y assume y: "y \<in> set xs"
      with Cons.prems(1) True have "g y \<noteq> g x0" by (auto simp add: image_iff)
      with Cons.prems(3) y show "f' y = f y" by simp
    qed
    then have "sum_list (map f' xs) = sum_list (map f xs)"
      by (simp cong: map_cong)
    with True Cons.prems(4) show ?thesis by simp
  next
    case False
    with Cons.prems have mem: "x0 \<in> set xs" by simp
    from Cons.prems(1) mem False have "g x \<noteq> g x0" by (auto simp add: image_iff)
    with Cons.prems(3) have fx: "f' x = f x" by simp
    have "sum_list (map f' xs) = sum_list (map f xs) + v"
      using Cons.IH Cons.prems mem by simp
    with fx show ?thesis by simp
  qed
qed

lemma sum_list_unchanged:
  assumes "\<And>x. x \<in> set xs \<Longrightarrow> f' x = f x"
  shows "sum_list (map f' xs) = sum_list (map f xs)"
  using assms by (simp cong: map_cong)

lemma update_absent: "map_of al k = None \<Longrightarrow> AList.update k v al = al @ [(k, v)]"
  by (induction al) (auto split: if_splits)

lemma map_of_snd_mem: "map_of tm k = Some n \<Longrightarrow> n \<in> snd ` set tm"
  by (metis map_of_SomeD image_eqI snd_conv)

subsection \<open>Sums and local changes of the store\<close>

lemma nodeSum_unchanged:
  assumes "\<And>n. n \<in> snd ` set tm \<Longrightarrow> fval (Metadata (nodes h' n)) k = fval (Metadata (nodes h n)) k"
  shows "nodeSum k tm h' = nodeSum k tm h"
  unfolding nodeSum_def
proof (rule sum_list_unchanged)
  fix x assume "x \<in> set tm"
  then have "snd x \<in> snd ` set tm" by simp
  from assms[OF this] show "(case x of (nid, n) \<Rightarrow> fval (Metadata (nodes h' n)) k)
      = (case x of (nid, n) \<Rightarrow> fval (Metadata (nodes h n)) k)"
    by (cases x) simp
qed

lemma nodeSum_added:
  assumes "distinct (map snd tm)" "n \<in> snd ` set tm"
    and "\<And>a. a \<in> snd ` set tm \<Longrightarrow> a \<noteq> n \<Longrightarrow> fval (Metadata (nodes h' a)) k = fval (Metadata (nodes h a)) k"
    and "fval (Metadata (nodes h' n)) k = fval (Metadata (nodes h n)) k + v"
  shows "nodeSum k tm h' = nodeSum k tm h + v"
proof -
  from assms(2) obtain nid where mem: "(nid, n) \<in> set tm" by auto
  show ?thesis
    unfolding nodeSum_def
  proof (rule sum_list_one_changed[where g = snd and ?x0.0 = "(nid, n)"])
    show "distinct (map snd tm)" by (rule assms(1))
    show "(nid, n) \<in> set tm" by (rule mem)
    show "(case (nid, n) of (nid, n) \<Rightarrow> fval (Metadata (nodes h' n)) k)
        = (case (nid, n) of (nid, n) \<Rightarrow> fval (Metadata (nodes h n)) k) + v"
      using assms(4) by simp
  next
    fix x assume x: "x \<in> set tm" and ne: "snd x \<noteq> snd (nid, n)"
    then have "snd x \<in> snd ` set tm" "snd x \<noteq> n" by simp_all
    from assms(3)[OF this] show "(case x of (nid, n) \<Rightarrow> fval (Metadata (nodes h' n)) k)
        = (case x of (nid, n) \<Rightarrow> fval (Metadata (nodes h n)) k)"
      by (cases x) simp
  qed
qed

lemma edgeSum_unchanged:
  assumes "allEdges tm h' = allEdges tm h"
    and "\<And>e. e \<in> set (allEdges tm h) \<Longrightarrow> fval (EdgeMetadata (edges h' e)) k = fval (EdgeMetadata (edges h e)) k"
  shows "edgeSum k tm h' = edgeSum k tm h"
  unfolding edgeSum_def assms(1)
  by (rule sum_list_unchanged) (use assms in auto)

lemma edgeSum_added:
  assumes "allEdges tm h' = allEdges tm h" "distinct (allEdges tm h)" "e \<in> set (allEdges tm h)"
    and "\<And>x. x \<in> set (allEdges tm h) \<Longrightarrow> x \<noteq> e \<Longrightarrow> fval (EdgeMetadata (edges h' x)) k = fval (EdgeMetadata (edges h x)) k"
    and "fval (EdgeMetadata (edges h' e)) k = fval (EdgeMetadata (edges h e)) k + v"
  shows "edgeSum k tm h' = edgeSum k tm h + v"
  unfolding edgeSum_def assms(1)
  by (rule sum_list_one_changed[where g = "\<lambda>x. x" and ?x0.0 = e]) (use assms in auto)

lemma allEdges_same:
  assumes "\<And>n. n \<in> snd ` set tm \<Longrightarrow> Edges (nodes h' n) = Edges (nodes h n)"
  shows "allEdges tm h' = allEdges tm h"
proof -
  have "\<And>x. x \<in> set tm \<Longrightarrow> (case x of (nid, n) \<Rightarrow> Edges (nodes h' n))
          = (case x of (nid, n) \<Rightarrow> Edges (nodes h n))"
  proof -
    fix x assume "x \<in> set tm"
    then have "snd x \<in> snd ` set tm" by simp
    from assms[OF this] show "(case x of (nid, n) \<Rightarrow> Edges (nodes h' n))
          = (case x of (nid, n) \<Rightarrow> Edges (nodes h n))" by (cases x) simp
  qed
  then show ?thesis by (simp add: allEdges_def cong: map_cong)
qed

lemma allEdges_append [simp]: "allEdges (tm @ tm') h = allEdges tm h @ allEdges tm' h"
  by (simp add: allEdges_def)

lemma nodeSum_append [simp]: "nodeSum k (tm @ tm') h = nodeSum k tm h + nodeSum k tm' h"
  by (simp add: nodeSum_def)

lemma allEdges_mem:
  "e \<in> set (allEdges tm h) \<longleftrightarrow> (\<exists>n \<in> snd ` set tm. e \<in> set (Edges (nodes h n)))"
  by (induction tm) (auto simp add: allEdges_def)

text \<open>One node of the map gets one more edge at the end of its list.\<close>

lemma allEdges_edge_added:
  assumes "distinct (map snd tm)" "s \<in> snd ` set tm"
    and "\<And>n. n \<in> snd ` set tm \<Longrightarrow> n \<noteq> s \<Longrightarrow> Edges (nodes h' n) = Edges (nodes h n)"
    and "Edges (nodes h' s) = Edges (nodes h s) @ [e]"
  shows "set (allEdges tm h') = insert e (set (allEdges tm h))
       \<and> sum_list (map f (allEdges tm h')) = sum_list (map f (allEdges tm h)) + (f e :: real)
       \<and> (distinct (allEdges tm h) \<and> e \<notin> set (allEdges tm h) \<longrightarrow> distinct (allEdges tm h'))"
  using assms
proof (induction tm)
  case Nil
  then show ?case by simp
next
  case (Cons p tm)
  obtain nid n where p: "p = (nid, n)" by (cases p)
  show ?case
  proof (cases "n = s")
    case True
    have notin: "s \<notin> snd ` set tm" using Cons.prems(1) True p by (auto simp add: image_iff)
    have "allEdges tm h' = allEdges tm h"
      by (rule allEdges_same) (use Cons.prems(3) notin in auto)
    then show ?thesis
      using True p Cons.prems(4) by (auto simp add: allEdges_def)
  next
    case False
    then have mem: "s \<in> snd ` set tm" using Cons.prems(2) p by auto
    have same: "Edges (nodes h' n) = Edges (nodes h n)"
      using Cons.prems(3)[of n] False p by simp
    have ih: "set (allEdges tm h') = insert e (set (allEdges tm h))
       \<and> sum_list (map f (allEdges tm h')) = sum_list (map f (allEdges tm h)) + f e
       \<and> (distinct (allEdges tm h) \<and> e \<notin> set (allEdges tm h) \<longrightarrow> distinct (allEdges tm h'))"
      using Cons.IH Cons.prems mem by simp
    have a: "allEdges (p # tm) h' = Edges (nodes h n) @ allEdges tm h'"
      and b: "allEdges (p # tm) h = Edges (nodes h n) @ allEdges tm h"
      using same p by (simp_all add: allEdges_def)
    show ?thesis unfolding a b using ih by auto
  qed
qed

subsection \<open>Typing of metadata\<close>

lemma fval_upd [simp]:
  "fval (md(k \<mapsto> VFloat x)) k' = (if k' = k then x else fval md k')"
  "fval (md(k \<mapsto> VString s)) k' = (if k' = k then 0 else fval md k')"
  "fval (md(k \<mapsto> VStringSet ss)) k' = (if k' = k then 0 else fval md k')"
  "fval Map.empty k' = 0"
  by (simp_all add: fval_def)

lemma fval_not_float:
  "nodeTyped md \<Longrightarrow> fval md ''destServices'' = 0"
  "nodeTyped md \<Longrightarrow> fval md ''isMisconfigured'' = 0"
  by (auto simp add: nodeTyped_def fval_def split: option.splits mdval.splits)

lemma nodeTyped_empty [simp]: "nodeTyped Map.empty"
  by (simp add: nodeTyped_def floatOrNone_def)

lemma nodeTyped_float:
  "nodeTyped md \<Longrightarrow> k \<noteq> ''destServices'' \<Longrightarrow> k \<noteq> ''isMisconfigured''
     \<Longrightarrow> nodeTyped (md(k \<mapsto> VFloat x))"
  by (simp add: nodeTyped_def floatOrNone_def)

lemma nodeTyped_services:
  "nodeTyped md \<Longrightarrow> nodeTyped (md(''destServices'' \<mapsto> VStringSet ss))"
  by (simp add: nodeTyped_def floatOrNone_def)

lemma nodeTyped_misconfigured:
  "nodeTyped md \<Longrightarrow> nodeTyped (md(''isMisconfigured'' \<mapsto> VString v))"
  by (simp add: nodeTyped_def floatOrNone_def)

lemma edgeTyped_float:
  "edgeTyped md \<Longrightarrow> edgeTyped (md(k \<mapsto> VFloat x))"
  by (simp add: edgeTyped_def floatOrNone_def)

lemma edgeTyped_protocol [simp]: "edgeTyped (Map.empty(''protocol'' \<mapsto> v))"
  by (simp add: edgeTyped_def floatOrNone_def)

lemma addToMetadataValue_typed:
  assumes "floatOrNone (md k)"
  shows "addToMetadataValue md k v = Inr (md(k \<mapsto> VFloat (fval md k + v)))"
proof (cases "md k")
  case None
  then show ?thesis by (simp add: addToMetadataValue_def fval_def)
next
  case (Some x)
  with assms obtain c where "x = VFloat c" by (cases x) (simp_all add: floatOrNone_def)
  with Some show ?thesis by (simp add: addToMetadataValue_def fval_def)
qed

lemma addToDestServices_typed:
  assumes "nodeTyped md"
  shows "\<exists>ss. addToDestServices md svc = Inr (md(''destServices'' \<mapsto> VStringSet ss))"
proof (cases "md ''destServices''")
  case None
  then have "addToDestServices md svc = Inr (md(''destServices'' \<mapsto> VStringSet [(svc, True)]))"
    by (simp add: addToDestServices_def)
  then show ?thesis by blast
next
  case (Some x)
  with assms obtain ss where "x = VStringSet ss"
    by (cases x) (simp_all add: nodeTyped_def)
  with Some have "addToDestServices md svc
      = Inr (md(''destServices'' \<mapsto> VStringSet (AList.update svc True ss)))"
    by (simp add: addToDestServices_def)
  then show ?thesis by blast
qed

subsection \<open>Writes to one node or one edge of the map\<close>

text \<open>A node of the map is replaced by a node with the same edges.\<close>

lemma node_write:
  assumes inv: "builderInv tm h" and mem: "n \<in> snd ` set tm"
    and h': "h' = h\<lparr>nodes := (nodes h)(n := nd)\<rparr>"
    and same: "Edges nd = Edges (nodes h n)" and typed: "nodeTyped (Metadata nd)"
  shows "builderInv tm h'"
    and "nodeSum k tm h' = nodeSum k tm h + (fval (Metadata nd) k - fval (Metadata (nodes h n)) k)"
    and "edgeSum k tm h' = edgeSum k tm h"
    and "allEdges tm h' = allEdges tm h"
proof -
  have ed: "\<And>a. Edges (nodes h' a) = Edges (nodes h a)" using h' same by simp
  show ae: "allEdges tm h' = allEdges tm h" by (rule allEdges_same) (simp add: ed)
  have e': "edges h' = edges h" "nextNode h' = nextNode h" "nextEdge h' = nextEdge h"
    using h' by simp_all
  show "builderInv tm h'"
    using inv typed unfolding builderInv_def ae e' by (auto simp add: h')
  show "nodeSum k tm h' = nodeSum k tm h + (fval (Metadata nd) k - fval (Metadata (nodes h n)) k)"
  proof (rule nodeSum_added)
    show "distinct (map snd tm)" using inv by (simp add: builderInv_def)
    show "n \<in> snd ` set tm" by (rule mem)
    show "\<And>a. a \<in> snd ` set tm \<Longrightarrow> a \<noteq> n \<Longrightarrow>
             fval (Metadata (nodes h' a)) k = fval (Metadata (nodes h a)) k"
      by (simp add: h')
    show "fval (Metadata (nodes h' n)) k
            = fval (Metadata (nodes h n)) k + (fval (Metadata nd) k - fval (Metadata (nodes h n)) k)"
      by (simp add: h')
  qed
  show "edgeSum k tm h' = edgeSum k tm h"
    by (rule edgeSum_unchanged[OF ae]) (simp add: e')
qed

lemma edge_write:
  assumes inv: "builderInv tm h" and mem: "e \<in> set (allEdges tm h)"
    and h': "h' = setEdgeMetadata e md h" and typed: "edgeTyped md"
  shows "builderInv tm h'"
    and "nodeSum k tm h' = nodeSum k tm h"
    and "edgeSum k tm h' = edgeSum k tm h + (fval md k - fval (EdgeMetadata (edges h e)) k)"
    and "allEdges tm h' = allEdges tm h"
proof -
  have n': "nodes h' = nodes h" "nextNode h' = nextNode h" "nextEdge h' = nextEdge h"
    using h' by (simp_all add: setEdgeMetadata_def)
  have em: "\<And>x. EdgeMetadata (edges h' x) = (if x = e then md else EdgeMetadata (edges h x))"
    using h' by (simp add: setEdgeMetadata_def)
  show ae: "allEdges tm h' = allEdges tm h" by (rule allEdges_same) (simp add: n')
  show "builderInv tm h'"
    using inv typed unfolding builderInv_def ae n' by (auto simp add: em)
  show "nodeSum k tm h' = nodeSum k tm h"
    by (rule nodeSum_unchanged) (simp add: n')
  show "edgeSum k tm h' = edgeSum k tm h + (fval md k - fval (EdgeMetadata (edges h e)) k)"
  proof (rule edgeSum_added[OF ae])
    show "distinct (allEdges tm h)" using inv by (simp add: builderInv_def)
    show "e \<in> set (allEdges tm h)" by (rule mem)
    show "\<And>x. x \<in> set (allEdges tm h) \<Longrightarrow> x \<noteq> e \<Longrightarrow>
            fval (EdgeMetadata (edges h' x)) k = fval (EdgeMetadata (edges h x)) k"
      by (simp add: em)
    show "fval (EdgeMetadata (edges h' e)) k
           = fval (EdgeMetadata (edges h e)) k + (fval md k - fval (EdgeMetadata (edges h e)) k)"
      by (simp add: em)
  qed
qed

subsection \<open>Steps of the builder\<close>

lemma builderStep_refl: "builderInv tm h \<Longrightarrow> builderStep tm h tm h (\<lambda>_. 0) (\<lambda>_. 0)"
  by (simp add: builderStep_def)

lemma builderStep_trans:
  assumes "builderStep tm h tm1 h1 a b" "builderStep tm1 h1 tm2 h2 c d"
  shows "builderStep tm h tm2 h2 (\<lambda>k. a k + c k) (\<lambda>k. b k + d k)"
  using assms unfolding builderStep_def by (simp add: subset_iff)

lemma builderStep_inv: "builderStep tm h tm' h' a b \<Longrightarrow> builderInv tm' h'"
  by (simp add: builderStep_def)

lemma builderStep_node: "builderStep tm h tm' h' a b \<Longrightarrow> n \<in> snd ` set tm \<Longrightarrow> n \<in> snd ` set tm'"
  unfolding builderStep_def by blast

lemma builderStep_edge:
  "builderStep tm h tm' h' a b \<Longrightarrow> e \<in> set (allEdges tm h) \<Longrightarrow> e \<in> set (allEdges tm' h')"
  unfolding builderStep_def by blast

lemma node_write_step:
  assumes "builderInv tm h" "n \<in> snd ` set tm" "h' = h\<lparr>nodes := (nodes h)(n := nd)\<rparr>"
    "Edges nd = Edges (nodes h n)" "nodeTyped (Metadata nd)"
  shows "builderStep tm h tm h' (\<lambda>k. fval (Metadata nd) k - fval (Metadata (nodes h n)) k) (\<lambda>_. 0)"
  unfolding builderStep_def
  using node_write[OF assms] by simp

lemma edge_write_step:
  assumes "builderInv tm h" "e \<in> set (allEdges tm h)" "h' = setEdgeMetadata e md h" "edgeTyped md"
  shows "builderStep tm h tm h' (\<lambda>_. 0) (\<lambda>k. fval md k - fval (EdgeMetadata (edges h e)) k)"
  unfolding builderStep_def
  using edge_write[OF assms] by simp

lemma inv_nodeTyped: "builderInv tm h \<Longrightarrow> n \<in> snd ` set tm \<Longrightarrow> nodeTyped (Metadata (nodes h n))"
  unfolding builderInv_def by blast

lemma inv_edgeTyped:
  "builderInv tm h \<Longrightarrow> e \<in> set (allEdges tm h) \<Longrightarrow> edgeTyped (EdgeMetadata (edges h e))"
  unfolding builderInv_def by blast

lemma addToNodeMetadataValue_step:
  assumes inv: "builderInv tm h" and mem: "n \<in> snd ` set tm"
    and k: "k \<noteq> ''destServices''" "k \<noteq> ''isMisconfigured''"
  shows "\<exists>h'. addToNodeMetadataValue n k v h = Inr h'
           \<and> builderStep tm h tm h' (\<lambda>k'. if k' = k then v else 0) (\<lambda>_. 0)"
proof -
  let ?md = "Metadata (nodes h n)"
  let ?md' = "?md(k \<mapsto> VFloat (fval ?md k + v))"
  have t: "nodeTyped ?md" by (rule inv_nodeTyped[OF inv mem])
  then have "floatOrNone (?md k)" using k by (simp add: nodeTyped_def)
  then have r: "addToNodeMetadataValue n k v h = Inr (setNodeMetadata n ?md' h)"
    by (simp add: addToNodeMetadataValue_def addToMetadataValue_typed bindE_def)
  have "builderStep tm h tm (setNodeMetadata n ?md' h)
          (\<lambda>k'. fval (Metadata ((nodes h n)\<lparr>Metadata := ?md'\<rparr>)) k' - fval ?md k') (\<lambda>_. 0)"
    by (rule node_write_step[OF inv mem])
       (simp_all add: setNodeMetadata_def nodeTyped_float[OF t k])
  moreover have "(\<lambda>k'. fval (Metadata ((nodes h n)\<lparr>Metadata := ?md'\<rparr>)) k' - fval ?md k')
      = (\<lambda>k'. if k' = k then v else 0)"
    by (rule ext) simp
  ultimately show ?thesis using r by simp
qed

lemma addToEdgeMetadataValue_step:
  assumes inv: "builderInv tm h" and mem: "e \<in> set (allEdges tm h)" and k: "k \<noteq> ''protocol''"
  shows "\<exists>h'. addToEdgeMetadataValue e k v h = Inr h'
           \<and> builderStep tm h tm h' (\<lambda>_. 0) (\<lambda>k'. if k' = k then v else 0)"
proof -
  let ?md = "EdgeMetadata (edges h e)"
  let ?md' = "?md(k \<mapsto> VFloat (fval ?md k + v))"
  have t: "edgeTyped ?md" by (rule inv_edgeTyped[OF inv mem])
  then have "floatOrNone (?md k)" using k by (simp add: edgeTyped_def)
  then have r: "addToEdgeMetadataValue e k v h = Inr (setEdgeMetadata e ?md' h)"
    by (simp add: addToEdgeMetadataValue_def addToMetadataValue_typed bindE_def)
  have "builderStep tm h tm (setEdgeMetadata e ?md' h)
          (\<lambda>_. 0) (\<lambda>k'. fval ?md' k' - fval ?md k')"
    by (rule edge_write_step[OF inv mem refl edgeTyped_float[OF t]])
  moreover have "(\<lambda>k'. fval ?md' k' - fval ?md k') = (\<lambda>k'. if k' = k then v else 0)"
    by (rule ext) simp
  ultimately show ?thesis using r by simp
qed

lemma addToDestServices_step:
  assumes inv: "builderInv tm h" and mem: "n \<in> snd ` set tm"
  shows "\<exists>md. addToDestServices (Metadata (nodes h n)) svc = Inr md
           \<and> builderStep tm h tm (setNodeMetadata n md h) (\<lambda>_. 0) (\<lambda>_. 0)"
proof -
  let ?md = "Metadata (nodes h n)"
  have t: "nodeTyped ?md" by (rule inv_nodeTyped[OF inv mem])
  from addToDestServices_typed[OF t] obtain ss where
    r: "addToDestServices ?md svc = Inr (?md(''destServices'' \<mapsto> VStringSet ss))" by blast
  let ?md' = "?md(''destServices'' \<mapsto> VStringSet ss)"
  have "builderStep tm h tm (setNodeMetadata n ?md' h)
          (\<lambda>k'. fval (Metadata ((nodes h n)\<lparr>Metadata := ?md'\<rparr>)) k' - fval ?md k') (\<lambda>_. 0)"
    by (rule node_write_step[OF inv mem])
       (simp_all add: setNodeMetadata_def nodeTyped_services[OF t])
  moreover have "(\<lambda>k'. fval (Metadata ((nodes h n)\<lparr>Metadata := ?md'\<rparr>)) k' - fval ?md k')
      = (\<lambda>_. 0)"
    by (rule ext) (simp add: fval_not_float[OF t])
  ultimately show ?thesis using r by simp
qed

lemma handleMisconfiguredLabels_shape:
  assumes t: "nodeTyped (Metadata (nodes h n))"
  shows "handleMisconfiguredLabels n app version rate opts h
           = h\<lparr>nodes := (nodes h)(n := nodes (handleMisconfiguredLabels n app version rate opts h) n)\<rparr>"
    and "Edges (nodes (handleMisconfiguredLabels n app version rate opts h) n) = Edges (nodes h n)"
    and "nodeTyped (Metadata (nodes (handleMisconfiguredLabels n app version rate opts h) n))"
    and "fval (Metadata (nodes (handleMisconfiguredLabels n app version rate opts h) n)) k
           = fval (Metadata (nodes h n)) k"
  using t
  by (simp_all add: handleMisconfiguredLabels_def Let_def nodeTyped_misconfigured fval_not_float)

lemma handleMisconfiguredLabels_step:
  assumes inv: "builderInv tm h" and mem: "n \<in> snd ` set tm"
  shows "builderStep tm h tm (handleMisconfiguredLabels n app version rate opts h) (\<lambda>_. 0) (\<lambda>_. 0)"
proof -
  let ?h' = "handleMisconfiguredLabels n app version rate opts h"
  have t: "nodeTyped (Metadata (nodes h n))" by (rule inv_nodeTyped[OF inv mem])
  note sh = handleMisconfiguredLabels_shape[OF t, of app version rate opts]
  have "builderStep tm h tm ?h'
          (\<lambda>k'. fval (Metadata (nodes ?h' n)) k' - fval (Metadata (nodes h n)) k') (\<lambda>_. 0)"
    by (rule node_write_step[OF inv mem sh(1) sh(2) sh(3)])
  moreover have "(\<lambda>k'. fval (Metadata (nodes ?h' n)) k' - fval (Metadata (nodes h n)) k') = (\<lambda>_. 0)"
    by (rule ext) (simp add: sh(4))
  ultimately show ?thesis by simp
qed

lemma NewNodeExplicit_fresh [simp]:
  "Edges (NewNodeExplicit nid lbls t g) = []"
  "Metadata (NewNodeExplicit nid lbls t g) = Map.empty"
  by (cases lbls; simp)+

lemma addNode_step:
  assumes inv: "builderInv tm h"
    and r: "addNode idf tm lbls opts h = ((n, found), tm', h')"
  shows "builderStep tm h tm' h' (\<lambda>_. 0) (\<lambda>_. 0) \<and> n \<in> snd ` set tm'"
proof -
  obtain nid nodeType where idf: "idf lbls (GraphType opts) = (nid, nodeType)"
    by (cases "idf lbls (GraphType opts)")
  show ?thesis
  proof (cases "map_of tm nid")
    case (Some a)
    with r idf have "tm' = tm" "h' = h" "n = a" by (auto simp add: addNode_def)
    with Some inv show ?thesis
      using builderStep_refl[OF inv] map_of_snd_mem[OF Some] by simp
  next
    case None
    let ?nd = "NewNodeExplicit nid lbls nodeType (GraphType opts)"
    from r idf None have n: "n = nextNode h"
      and tm': "tm' = tm @ [(nid, nextNode h)]"
      and h': "h' = h\<lparr>nodes := (nodes h)(nextNode h := ?nd), nextNode := Suc (nextNode h)\<rparr>"
      by (auto simp add: addNode_def Let_def update_absent)
    have old: "\<And>a. a \<in> snd ` set tm \<Longrightarrow> a < nextNode h"
      using inv unfolding builderInv_def by blast
    then have fresh: "nextNode h \<notin> snd ` set tm" by blast
    have same: "\<And>a. a \<in> snd ` set tm \<Longrightarrow> nodes h' a = nodes h a"
    proof -
      fix a assume "a \<in> snd ` set tm"
      with fresh have "a \<noteq> nextNode h" by blast
      then show "nodes h' a = nodes h a" by (simp add: h')
    qed
    have ae: "allEdges tm h' = allEdges tm h"
      by (rule allEdges_same) (simp add: same)
    have ae': "allEdges tm' h' = allEdges tm h"
      by (simp add: tm' ae) (simp add: allEdges_def h')
    have e': "edges h' = edges h" "nextEdge h' = nextEdge h" using h' by simp_all
    have ns: "\<And>k. nodeSum k tm h' = nodeSum k tm h"
      by (rule nodeSum_unchanged) (simp add: same)
    have ns': "\<And>k. nodeSum k tm' h' = nodeSum k tm h"
      by (simp add: tm' ns) (simp add: nodeSum_def h')
    have es': "\<And>k. edgeSum k tm' h' = edgeSum k tm h"
      by (simp add: edgeSum_def ae' e')
    have d: "distinct (map snd tm')"
      using inv fresh by (simp add: tm' builderInv_def)
    have nt: "\<And>a. a \<in> snd ` set tm' \<Longrightarrow> a < nextNode h' \<and> nodeTyped (Metadata (nodes h' a))"
    proof -
      fix a assume "a \<in> snd ` set tm'"
      then have "a \<in> snd ` set tm \<or> a = nextNode h" by (auto simp add: tm')
      then show "a < nextNode h' \<and> nodeTyped (Metadata (nodes h' a))"
      proof
        assume a: "a \<in> snd ` set tm"
        with inv have "a < nextNode h" "nodeTyped (Metadata (nodes h a))"
          unfolding builderInv_def by blast+
        with same[OF a] show ?thesis by (simp add: h')
      next
        assume "a = nextNode h"
        then show ?thesis by (simp add: h')
      qed
    qed
    have "builderInv tm' h'"
      unfolding builderInv_def ae' e'
      using d nt inv unfolding builderInv_def by blast
    then have "builderStep tm h tm' h' (\<lambda>_. 0) (\<lambda>_. 0)"
      unfolding builderStep_def using ns' es' ae' by (auto simp add: tm')
    then show ?thesis by (simp add: n tm')
  qed
qed

lemma findEdge_mem: "findEdge h d key proto es = Some e \<Longrightarrow> e \<in> set es"
  by (induction es) (auto split: if_splits)

lemma findOrAddEdge_step:
  assumes inv: "builderInv tm h" and mem: "s \<in> snd ` set tm"
    and r: "findOrAddEdge s dest key proto h = (e, h')"
  shows "builderStep tm h tm h' (\<lambda>_. 0) (\<lambda>_. 0) \<and> e \<in> set (allEdges tm h')"
proof (cases "findEdge h (ID (nodes h dest)) key proto (Edges (nodes h s))")
  case (Some x)
  with r have "e = x" "h' = h" by (auto simp add: findOrAddEdge_def)
  moreover from findEdge_mem[OF Some] mem have "x \<in> set (allEdges tm h)"
    by (auto simp add: allEdges_mem)
  ultimately show ?thesis using builderStep_refl[OF inv] by simp
next
  case None
  let ?md = "Map.empty(''protocol'' \<mapsto> VString proto)"
  from r None have e: "e = nextEdge h"
    and h': "h' = h\<lparr>nodes := (nodes h)(s := (nodes h s)\<lparr>Edges := Edges (nodes h s) @ [nextEdge h]\<rparr>),
            edges := (edges h)(nextEdge h := \<lparr>Source = s, Dest = dest, EdgeMetadata = ?md\<rparr>),
            nextEdge := Suc (nextEdge h)\<rparr>"
    by (auto simp add: findOrAddEdge_def AddEdge_def Let_def setEdgeMetadata_def)
  have old: "\<And>x. x \<in> set (allEdges tm h) \<Longrightarrow> x < nextEdge h"
    using inv unfolding builderInv_def by blast
  then have fresh: "nextEdge h \<notin> set (allEdges tm h)" by blast
  have d: "distinct (map snd tm)" "distinct (allEdges tm h)"
    using inv unfolding builderInv_def by blast+
  have added: "set (allEdges tm h') = insert (nextEdge h) (set (allEdges tm h))
       \<and> sum_list (map f (allEdges tm h')) = sum_list (map f (allEdges tm h)) + f (nextEdge h)
       \<and> (distinct (allEdges tm h) \<and> nextEdge h \<notin> set (allEdges tm h) \<longrightarrow> distinct (allEdges tm h'))"
    for f :: "edgeRef \<Rightarrow> real"
    by (rule allEdges_edge_added[OF d(1) mem]) (simp_all add: h')
  have md: "\<And>a. Metadata (nodes h' a) = Metadata (nodes h a)" by (simp add: h')
  have em: "\<And>x. x \<noteq> nextEdge h \<Longrightarrow> edges h' x = edges h x" by (simp add: h')
  have emn: "EdgeMetadata (edges h' (nextEdge h)) = ?md" by (simp add: h')
  have ns: "\<And>k. nodeSum k tm h' = nodeSum k tm h"
    by (rule nodeSum_unchanged) (simp add: md)
  have es: "\<And>k. edgeSum k tm h' = edgeSum k tm h"
  proof -
    fix k
    have "edgeSum k tm h' = sum_list (map (\<lambda>x. fval (EdgeMetadata (edges h' x)) k) (allEdges tm h))
            + fval (EdgeMetadata (edges h' (nextEdge h))) k"
      unfolding edgeSum_def using added by blast
    also have "sum_list (map (\<lambda>x. fval (EdgeMetadata (edges h' x)) k) (allEdges tm h))
            = sum_list (map (\<lambda>x. fval (EdgeMetadata (edges h x)) k) (allEdges tm h))"
    proof (rule sum_list_unchanged)
      fix x assume "x \<in> set (allEdges tm h)"
      with fresh have "x \<noteq> nextEdge h" by blast
      from em[OF this] show "fval (EdgeMetadata (edges h' x)) k = fval (EdgeMetadata (edges h x)) k"
        by simp
    qed
    finally show "edgeSum k tm h' = edgeSum k tm h"
      by (simp add: emn edgeSum_def fval_def)
  qed
  have nt: "\<And>a. a \<in> snd ` set tm \<Longrightarrow> a < nextNode h' \<and> nodeTyped (Metadata (nodes h' a))"
    using inv unfolding builderInv_def by (auto simp add: md h')
  have et: "\<And>x. x \<in> set (allEdges tm h') \<Longrightarrow> x < nextEdge h' \<and> edgeTyped (EdgeMetadata (edges h' x))"
  proof -
    fix x assume "x \<in> set (allEdges tm h')"
    with added[of "\<lambda>_. 0"] have "x = nextEdge h \<or> x \<in> set (allEdges tm h)" by auto
    then show "x < nextEdge h' \<and> edgeTyped (EdgeMetadata (edges h' x))"
    proof
      assume "x = nextEdge h"
      then show ?thesis using emn by (simp add: h')
    next
      assume x: "x \<in> set (allEdges tm h)"
      with fresh have ne: "x \<noteq> nextEdge h" by blast
      from x inv have "x < nextEdge h" "edgeTyped (EdgeMetadata (edges h x))"
        unfolding builderInv_def by blast+
      with em[OF ne] show ?thesis by (simp add: h')
    qed
  qed
  have dd: "distinct (allEdges tm h')" using added[of "\<lambda>_. 0"] d(2) fresh by blast
  have "builderInv tm h'"
    unfolding builderInv_def using d(1) nt et dd by blast
  then have "builderStep tm h tm h' (\<lambda>_. 0) (\<lambda>_. 0)"
    unfolding builderStep_def using ns es added[of "\<lambda>_. 0"] by auto
  moreover have "e \<in> set (allEdges tm h')" using added[of "\<lambda>_. 0"] e by simp
  ultimately show ?thesis by simp
qed

lemma builderStep_then:
  assumes "builderStep tm h tm1 h1 (\<lambda>_. 0) (\<lambda>_. 0)" "builderStep tm1 h1 tm2 h2 c d"
  shows "builderStep tm h tm2 h2 c d"
  using builderStep_trans[OF assms] by simp

lemma builderStep_sum:
  assumes "builderStep tm h tm1 h1 a b" "builderStep tm1 h1 tm2 h2 c d"
    and "\<And>k. a k + c k = a' k" "\<And>k. b k + d k = b' k"
  shows "builderStep tm h tm2 h2 a' b'"
proof -
  have "(\<lambda>k. a k + c k) = a'" "(\<lambda>k. b k + d k) = b'" using assms(3,4) by auto
  with builderStep_trans[OF assms(1,2)] show ?thesis by simp
qed

text \<open>The switch on the response code, on its own.\<close>

lemma bucket_step:
  assumes inv: "builderInv tm h" and d: "d \<in> snd ` set tm" and e: "e \<in> set (allEdges tm h)"
    and kn: "kn \<noteq> ''destServices''" "kn \<noteq> ''isMisconfigured''" and ke: "ke \<noteq> ''protocol''"
  shows "\<exists>h'. bindE (addToNodeMetadataValue d kn val h) (addToEdgeMetadataValue e ke val) = Inr h'
           \<and> builderStep tm h tm h' (\<lambda>k. if k = kn then val else 0) (\<lambda>k. if k = ke then val else 0)"
proof -
  from addToNodeMetadataValue_step[OF inv d kn, of val] obtain h1 where
    r1: "addToNodeMetadataValue d kn val h = Inr h1"
    and s1: "builderStep tm h tm h1 (\<lambda>k'. if k' = kn then val else 0) (\<lambda>_. 0)" by blast
  from addToEdgeMetadataValue_step[OF builderStep_inv[OF s1] builderStep_edge[OF s1 e] ke, of val]
  obtain h2 where
    r2: "addToEdgeMetadataValue e ke val h1 = Inr h2"
    and s2: "builderStep tm h1 tm h2 (\<lambda>_. 0) (\<lambda>k'. if k' = ke then val else 0)" by blast
  have "builderStep tm h tm h2 (\<lambda>k. if k = kn then val else 0) (\<lambda>k. if k = ke then val else 0)"
    by (rule builderStep_sum[OF s1 s2]) simp_all
  then show ?thesis using r1 r2 by (simp add: bindE_def)
qed

lemma addHttpTraffic_step:
  assumes inv: "builderInv tm h"
  shows "\<exists>s d tm' h'. addHttpTraffic idf tm val code src dst opts h = Inr ((s, d), tm', h')
           \<and> builderStep tm h tm' h' (httpNodeDelta code val) (httpEdgeDelta code val)"
proof -
  obtain a1 a2 a3 a4 a5 where src: "src = (a1, a2, a3, a4, a5)" by (cases src)
  obtain b1 b2 b3 b4 b5 where dst: "dst = (b1, b2, b3, b4, b5)" by (cases dst)
  obtain s sf tm1 h1 where r1: "addNode idf tm (a1, a2, a3, a4, a5) opts h = ((s, sf), tm1, h1)"
    by (metis prod.exhaust)
  from addNode_step[OF inv r1] have s1: "builderStep tm h tm1 h1 (\<lambda>_. 0) (\<lambda>_. 0)"
    and m1: "s \<in> snd ` set tm1" by simp_all
  obtain d df tm2 h2 where r2: "addNode idf tm1 (b1, b2, b3, b4, b5) opts h1 = ((d, df), tm2, h2)"
    by (metis prod.exhaust)
  from addNode_step[OF builderStep_inv[OF s1] r2]
  have s2: "builderStep tm1 h1 tm2 h2 (\<lambda>_. 0) (\<lambda>_. 0)" and md: "d \<in> snd ` set tm2" by simp_all
  have ms: "s \<in> snd ` set tm2" by (rule builderStep_node[OF s2 m1])
  note i2 = builderStep_inv[OF s2]
  from addToDestServices_step[OF i2 md, of b5] obtain mdv where
    r3: "addToDestServices (Metadata (nodes h2 d)) b5 = Inr mdv"
    and s3: "builderStep tm2 h2 tm2 (setNodeMetadata d mdv h2) (\<lambda>_. 0) (\<lambda>_. 0)" by blast
  let ?h3 = "setNodeMetadata d mdv h2"
  obtain e h4 where r4: "findOrAddEdge s d ''protocol'' ''http'' ?h3 = (e, h4)"
    by (metis prod.exhaust)
  from findOrAddEdge_step[OF builderStep_inv[OF s3] ms r4]
  have s4: "builderStep tm2 ?h3 tm2 h4 (\<lambda>_. 0) (\<lambda>_. 0)" and e4: "e \<in> set (allEdges tm2 h4)"
    by simp_all
  let ?h5 = "if sf then handleMisconfiguredLabels s a3 a4 val opts h4 else h4"
  have s5: "builderStep tm2 h4 tm2 ?h5 (\<lambda>_. 0) (\<lambda>_. 0)"
    using handleMisconfiguredLabels_step[OF builderStep_inv[OF s4] ms]
      builderStep_refl[OF builderStep_inv[OF s4]] by simp
  let ?h6 = "if df then handleMisconfiguredLabels d b3 b4 val opts ?h5 else ?h5"
  have s6: "builderStep tm2 ?h5 tm2 ?h6 (\<lambda>_. 0) (\<lambda>_. 0)"
    using handleMisconfiguredLabels_step[OF builderStep_inv[OF s5] md]
      builderStep_refl[OF builderStep_inv[OF s5]] by simp
  have s0: "builderStep tm h tm2 ?h6 (\<lambda>_. 0) (\<lambda>_. 0)"
    by (rule builderStep_then[OF s1 builderStep_then[OF s2 builderStep_then[OF s3
          builderStep_then[OF s4 builderStep_then[OF s5 s6]]]]])
  have e6: "e \<in> set (allEdges tm2 ?h6)"
    by (rule builderStep_edge[OF s6 builderStep_edge[OF s5 e4]])
  from addToNodeMetadataValue_step[OF builderStep_inv[OF s6] ms, of "''httpOut''" val]
  obtain h7 where r7: "addToNodeMetadataValue s ''httpOut'' val ?h6 = Inr h7"
    and s7: "builderStep tm2 ?h6 tm2 h7 (\<lambda>k'. if k' = ''httpOut'' then val else 0) (\<lambda>_. 0)"
    by auto
  from addToNodeMetadataValue_step[OF builderStep_inv[OF s7] md, of "''httpIn''" val]
  obtain h8 where r8: "addToNodeMetadataValue d ''httpIn'' val h7 = Inr h8"
    and s8: "builderStep tm2 h7 tm2 h8 (\<lambda>k'. if k' = ''httpIn'' then val else 0) (\<lambda>_. 0)"
    by auto
  have e8: "e \<in> set (allEdges tm2 h8)"
    by (rule builderStep_edge[OF s8 builderStep_edge[OF s7 e6]])
  from addToEdgeMetadataValue_step[OF builderStep_inv[OF s8] e8, of "''http''" val]
  obtain h9 where r9: "addToEdgeMetadataValue e ''http'' val h8 = Inr h9"
    and s9: "builderStep tm2 h8 tm2 h9 (\<lambda>_. 0) (\<lambda>k'. if k' = ''http'' then val else 0)"
    by auto
  have e9: "e \<in> set (allEdges tm2 h9)" by (rule builderStep_edge[OF s9 e8])
  note i9 = builderStep_inv[OF s9]
  let ?bucket = "if hasPrefix code ''3'' then
                  bindE (addToNodeMetadataValue d ''httpIn3xx'' val h9)
                        (addToEdgeMetadataValue e ''http3xx'' val)
                else if hasPrefix code ''4'' then
                  bindE (addToNodeMetadataValue d ''httpIn4xx'' val h9)
                        (addToEdgeMetadataValue e ''http4xx'' val)
                else if hasPrefix code ''5'' then
                  bindE (addToNodeMetadataValue d ''httpIn5xx'' val h9)
                        (addToEdgeMetadataValue e ''http5xx'' val)
                else Inr h9"
  let ?bn = "\<lambda>k. if hasPrefix code ''3'' then (if k = ''httpIn3xx'' then val else 0)
        else if hasPrefix code ''4'' then (if k = ''httpIn4xx'' then val else 0)
        else if hasPrefix code ''5'' then (if k = ''httpIn5xx'' then val else 0)
        else (0::real)"
  let ?be = "\<lambda>k. if hasPrefix code ''3'' then (if k = ''http3xx'' then val else 0)
        else if hasPrefix code ''4'' then (if k = ''http4xx'' then val else 0)
        else if hasPrefix code ''5'' then (if k = ''http5xx'' then val else 0)
        else (0::real)"
  have "\<exists>h10. ?bucket = Inr h10 \<and> builderStep tm2 h9 tm2 h10 ?bn ?be"
  proof (cases "hasPrefix code ''3''")
    case True
    with bucket_step[OF i9 md e9, of "''httpIn3xx''" "''http3xx''" val] show ?thesis by simp
  next
    case n3: False
    show ?thesis
    proof (cases "hasPrefix code ''4''")
      case True
      with n3 bucket_step[OF i9 md e9, of "''httpIn4xx''" "''http4xx''" val] show ?thesis by simp
    next
      case n4: False
      show ?thesis
      proof (cases "hasPrefix code ''5''")
        case True
        with n3 n4 bucket_step[OF i9 md e9, of "''httpIn5xx''" "''http5xx''" val]
        show ?thesis by simp
      next
        case False
        with n3 n4 builderStep_refl[OF i9] show ?thesis by simp
      qed
    qed
  qed
  then obtain h10 where r10: "?bucket = Inr h10"
    and s10: "builderStep tm2 h9 tm2 h10 ?bn ?be" by blast
  have s78: "builderStep tm2 ?h6 tm2 h8
      (\<lambda>k. (if k = ''httpOut'' then val else 0) + (if k = ''httpIn'' then val else 0)) (\<lambda>_. 0)"
    by (rule builderStep_sum[OF s7 s8]) simp_all
  have s789: "builderStep tm2 ?h6 tm2 h9
      (\<lambda>k. (if k = ''httpOut'' then val else 0) + (if k = ''httpIn'' then val else 0))
      (\<lambda>k. if k = ''http'' then val else 0)"
    by (rule builderStep_sum[OF s78 s9]) simp_all
  have sall: "builderStep tm2 ?h6 tm2 h10 (httpNodeDelta code val) (httpEdgeDelta code val)"
    by (rule builderStep_sum[OF s789 s10]) (simp_all add: httpNodeDelta_def httpEdgeDelta_def)
  have res: "builderStep tm h tm2 h10 (httpNodeDelta code val) (httpEdgeDelta code val)"
    by (rule builderStep_then[OF s0 sall])
  have "addHttpTraffic idf tm val code src dst opts h = Inr ((s, d), tm2, h10)"
  proof -
    have "addHttpTraffic idf tm val code src dst opts h
            = bindE ?bucket (\<lambda>h10. Inr ((s, d), tm2, h10))"
      unfolding src dst addHttpTraffic.simps
      by (simp only: r1 r2 r3 r4 r7 r8 r9 prod.case sum.case bindE_def Let_def)
    then show ?thesis unfolding r10 by (simp add: bindE_def)
  qed
  with res show ?thesis by blast
qed

declare addHttpTraffic.simps [simp del] addTcpTraffic.simps [simp del]
  populateTrafficMapHttp_sample.simps [simp del]

lemma hasPrefix_200 [simp]:
  "\<not> hasPrefix ''200'' ''3''" "\<not> hasPrefix ''200'' ''4''" "\<not> hasPrefix ''200'' ''5''"
  by (simp_all add: hasPrefix_def)

lemma hasPrefix_exclusive:
  "hasPrefix code ''3'' \<Longrightarrow> \<not> hasPrefix code ''4'' \<and> \<not> hasPrefix code ''5''"
  "hasPrefix code ''4'' \<Longrightarrow> \<not> hasPrefix code ''5''"
  by (cases code; simp add: hasPrefix_def)+

lemma addHttpTraffic_200:
  assumes "builderInv tm h"
  shows "\<exists>r tm' h'. addHttpTraffic idf tm val ''200'' src dst opts h = Inr (r, tm', h')
           \<and> builderStep tm h tm' h' (sampleNodeDelta val) (sampleEdgeDelta val)"
proof -
  from addHttpTraffic_step[OF assms, of idf val "''200''" src dst opts]
  obtain s d tm' h' where
    r: "addHttpTraffic idf tm val ''200'' src dst opts h = Inr ((s, d), tm', h')"
    and st: "builderStep tm h tm' h' (httpNodeDelta ''200'' val) (httpEdgeDelta ''200'' val)"
    by blast
  have "httpNodeDelta ''200'' val = sampleNodeDelta val"
    by (rule ext) (simp add: httpNodeDelta_def sampleNodeDelta_def)
  moreover have "httpEdgeDelta ''200'' val = sampleEdgeDelta val"
    by (rule ext) (simp add: httpEdgeDelta_def sampleEdgeDelta_def)
  ultimately show ?thesis using r st by auto
qed

lemma populateTrafficMapHttp_sample_step:
  assumes inv: "builderInv tm h"
  shows "\<exists>x tm' h'. populateTrafficMapHttp_sample idf tm val lbls opts h = Inr (tm', h')
           \<and> builderStep tm h tm' h' (sampleNodeDelta x) (sampleEdgeDelta x)"
proof -
  obtain sourceWlNs sourceWl destSvcNs destSvcName destWl where
    lbls: "lbls = (sourceWlNs, sourceWl, destSvcNs, destSvcName, destWl)" by (cases lbls)
  let ?src = "(sourceWlNs, sourceWl, ''Unknown'', ''Unknown'', [])"
  let ?dst = "(destSvcNs, destWl, ''Unknown'', ''Unknown'', destSvcName)"
  let ?svc = "(destSvcNs, [], [], [], destSvcName)"
  have direct: "\<exists>x tm' h'. bindE (addHttpTraffic idf tm val ''200'' ?src ?dst opts h)
                   (\<lambda>(_, tm1, h1). Inr (tm1, h1)) = Inr (tm', h')
           \<and> builderStep tm h tm' h' (sampleNodeDelta x) (sampleEdgeDelta x)"
  proof -
    from addHttpTraffic_200[OF inv, of idf val ?src ?dst opts] obtain r tm' h' where
      "addHttpTraffic idf tm val ''200'' ?src ?dst opts h = Inr (r, tm', h')"
      "builderStep tm h tm' h' (sampleNodeDelta val) (sampleEdgeDelta val)" by blast
    then show ?thesis by (auto simp add: bindE_def)
  qed
  have split: "\<exists>x tm' h'. bindE (addHttpTraffic idf tm val ''200'' ?src ?svc opts h)
                   (\<lambda>(_, tm1, h1). bindE (addHttpTraffic idf tm1 val ''200'' ?svc ?dst opts h1)
                   (\<lambda>(_, tm2, h2). Inr (tm2, h2))) = Inr (tm', h')
           \<and> builderStep tm h tm' h' (sampleNodeDelta x) (sampleEdgeDelta x)"
  proof -
    from addHttpTraffic_200[OF inv, of idf val ?src ?svc opts] obtain r1 tm1 h1 where
      a: "addHttpTraffic idf tm val ''200'' ?src ?svc opts h = Inr (r1, tm1, h1)"
      and s1: "builderStep tm h tm1 h1 (sampleNodeDelta val) (sampleEdgeDelta val)" by blast
    from addHttpTraffic_200[OF builderStep_inv[OF s1], of idf val ?svc ?dst opts]
    obtain r2 tm2 h2 where
      b: "addHttpTraffic idf tm1 val ''200'' ?svc ?dst opts h1 = Inr (r2, tm2, h2)"
      and s2: "builderStep tm1 h1 tm2 h2 (sampleNodeDelta val) (sampleEdgeDelta val)" by blast
    have "builderStep tm h tm2 h2 (sampleNodeDelta (val + val)) (sampleEdgeDelta (val + val))"
      by (rule builderStep_sum[OF s1 s2]) (simp_all add: sampleNodeDelta_def sampleEdgeDelta_def)
    with a b show ?thesis by (auto simp add: bindE_def)
  qed
  show ?thesis
  proof (cases "InjectServiceNodes opts
                 \<and> snd (idf ?dst (GraphType opts)) \<noteq> NodeTypeService")
    case True
    then have "populateTrafficMapHttp_sample idf tm val lbls opts h
        = bindE (addHttpTraffic idf tm val ''200'' ?src ?svc opts h)
                   (\<lambda>(_, tm1, h1). bindE (addHttpTraffic idf tm1 val ''200'' ?svc ?dst opts h1)
                   (\<lambda>(_, tm2, h2). Inr (tm2, h2)))"
      by (auto simp add: lbls populateTrafficMapHttp_sample.simps Let_def split: prod.splits)
    with split show ?thesis by simp
  next
    case False
    then have "populateTrafficMapHttp_sample idf tm val lbls opts h
        = bindE (addHttpTraffic idf tm val ''200'' ?src ?dst opts h)
                   (\<lambda>(_, tm1, h1). Inr (tm1, h1))"
      by (auto simp add: lbls populateTrafficMapHttp_sample.simps Let_def split: prod.splits)
    with direct show ?thesis by simp
  qed
qed

lemma populateTrafficMapHttp_step:
  assumes "builderInv tm h"
  shows "\<exists>x tm' h'. populateTrafficMapHttp idf tm vector opts h = Inr (tm', h')
           \<and> builderStep tm h tm' h' (sampleNodeDelta x) (sampleEdgeDelta x)"
  using assms
proof (induction vector arbitrary: tm h)
  case Nil
  have "sampleNodeDelta 0 = (\<lambda>_. 0)" "sampleEdgeDelta 0 = (\<lambda>_. 0)"
    by (auto simp add: sampleNodeDelta_def sampleEdgeDelta_def)
  with builderStep_refl[OF Nil] show ?case by (metis populateTrafficMapHttp.simps(1))
next
  case (Cons s vector)
  show ?case
  proof (cases "\<exists>a b c d e. Metric s ''namespace'' = Some a \<and> Metric s ''deployment'' = Some b
           \<and> Metric s ''dst_namespace'' = Some c \<and> Metric s ''dst_service'' = Some d
           \<and> Metric s ''dst_deployment'' = Some e")
    case True
    then obtain a b c d e where l: "Metric s ''namespace'' = Some a" "Metric s ''deployment'' = Some b"
      "Metric s ''dst_namespace'' = Some c" "Metric s ''dst_service'' = Some d"
      "Metric s ''dst_deployment'' = Some e" by blast
    from populateTrafficMapHttp_sample_step[OF Cons.prems, of idf "Value s" "(a, b, c, d, e)" opts]
    obtain x tm1 h1 where
      r1: "populateTrafficMapHttp_sample idf tm (Value s) (a, b, c, d, e) opts h = Inr (tm1, h1)"
      and s1: "builderStep tm h tm1 h1 (sampleNodeDelta x) (sampleEdgeDelta x)" by blast
    from Cons.IH[OF builderStep_inv[OF s1]] obtain y tm2 h2 where
      r2: "populateTrafficMapHttp idf tm1 vector opts h1 = Inr (tm2, h2)"
      and s2: "builderStep tm1 h1 tm2 h2 (sampleNodeDelta y) (sampleEdgeDelta y)" by blast
    have "builderStep tm h tm2 h2 (sampleNodeDelta (x + y)) (sampleEdgeDelta (x + y))"
      by (rule builderStep_sum[OF s1 s2]) (simp_all add: sampleNodeDelta_def sampleEdgeDelta_def)
    moreover have "populateTrafficMapHttp idf tm (s # vector) opts h = Inr (tm2, h2)"
      using l r1 r2 by (simp add: bindE_def)
    ultimately show ?thesis by blast
  next
    case False
    then have "populateTrafficMapHttp idf tm (s # vector) opts h
        = populateTrafficMapHttp idf tm vector opts h"
      by (auto split: option.splits)
    with Cons.IH[OF Cons.prems] show ?thesis by simp
  qed
qed

lemma populateTrafficMapHttp_conserves:
  assumes "builderInv tm h"
    and "nodeSum ''httpOut'' tm h = nodeSum ''httpIn'' tm h"
    and "nodeSum ''httpIn'' tm h = edgeSum ''http'' tm h"
  shows "\<exists>tm' h'. populateTrafficMapHttp idf tm vector opts h = Inr (tm', h')
           \<and> builderInv tm' h'
           \<and> nodeSum ''httpOut'' tm' h' = nodeSum ''httpIn'' tm' h'
           \<and> nodeSum ''httpIn'' tm' h' = edgeSum ''http'' tm' h'"
proof -
  from populateTrafficMapHttp_step[OF assms(1), of idf vector opts] obtain x tm' h' where
    r: "populateTrafficMapHttp idf tm vector opts h = Inr (tm', h')"
    and s: "builderStep tm h tm' h' (sampleNodeDelta x) (sampleEdgeDelta x)" by blast
  from s have "builderInv tm' h'"
    "nodeSum ''httpOut'' tm' h' = nodeSum ''httpOut'' tm h + x"
    "nodeSum ''httpIn'' tm' h' = nodeSum ''httpIn'' tm h + x"
    "edgeSum ''http'' tm' h' = edgeSum ''http'' tm h + x"
    by (simp_all add: builderStep_def sampleNodeDelta_def sampleEdgeDelta_def)
  with r assms(2,3) show ?thesis by simp
qed

lemma counter_conservation_from_empty:
  "\<exists>tm' h'. populateTrafficMapHttp idf [] vector opts h = Inr (tm', h')
           \<and> nodeSum ''httpOut'' tm' h' = nodeSum ''httpIn'' tm' h'
           \<and> nodeSum ''httpIn'' tm' h' = edgeSum ''http'' tm' h'"
proof -
  have "builderInv [] h" by (simp add: builderInv_def allEdges_def)
  from populateTrafficMapHttp_conserves[OF this, of idf vector opts] show ?thesis
    by (auto simp add: nodeSum_def edgeSum_def allEdges_def)
qed

lemmas builder_eval = bindE_def addNode_def workloadOptions_def emptyHeap_def Unknown_def
  GraphTypeApp_def GraphTypeVersionedApp_def addToDestServices_def findOrAddEdge_def AddEdge_def
  setEdgeMetadata_def setNodeMetadata_def handleMisconfiguredLabels_def addToNodeMetadataValue_def
  addToEdgeMetadataValue_def addToMetadataValue_def edgesOf_def metadataOf_def Let_def blankNode_def
  blankEdge_def productpage_def mongodb_def addHttpTraffic.simps addTcpTraffic.simps
  populateTrafficMapHttp_sample.simps hasPrefix_def


text \<open>
  C1 at two TCP samples with the same source and destination: \<^verbatim>\<open>addTcpTraffic\<close> looks for an
  edge whose metadata has \<^verbatim>\<open>"tcp"\<close> under the key \<^verbatim>\<open>"procotol"\<close>, which no edge has, so the
  second sample appends a second edge with the same destination and protocol instead of
  adding to the first.
\<close>

theorem tcp_edge_not_reused:
  "(case twoTcpSamples of
      Inl _ \<Rightarrow> []
    | Inr (tm, h) \<Rightarrow> edgesOf tm h ''wl_bookinfo_productpage-v1'' [''protocol'', ''tcp''])
   = [(''wl_bookinfo_mongodb-v1'', [Some (VString ''tcp''), Some (VFloat 7)]),
      (''wl_bookinfo_mongodb-v1'', [Some (VString ''tcp''), Some (VFloat 5)])]"
  by (simp add: twoTcpSamples_def builder_eval)

text \<open>The same two samples through \<^verbatim>\<open>addHttpTraffic\<close> share one edge.\<close>

lemma http_edge_reused:
  "(case twoHttpSamples of
      Inl _ \<Rightarrow> []
    | Inr (tm, h) \<Rightarrow> edgesOf tm h ''wl_bookinfo_productpage-v1'' [''protocol'', ''http''])
   = [(''wl_bookinfo_mongodb-v1'', [Some (VString ''http''), Some (VFloat 12)])]"
  by (simp add: twoHttpSamples_def builder_eval)

text \<open>
  C6, as stated, fails: an accepted sample with the response code 503 adds its value to
  \<^verbatim>\<open>httpIn\<close> and \<^verbatim>\<open>http\<close>, but the destination gets no \<^verbatim>\<open>httpIn5xx\<close> and the edge no
  \<^verbatim>\<open>http5xx\<close>: \<^verbatim>\<open>populateTrafficMapHttp\<close> hands the code \<^verbatim>\<open>"200"\<close> to \<^verbatim>\<open>addHttpTraffic\<close>.
\<close>

theorem sample_503_not_bucketed:
  "(case populateTrafficMapHttp Id [] [sample503] workloadOptions emptyHeap of
      Inl _ \<Rightarrow> ([], [])
    | Inr (tm, h) \<Rightarrow>
        (metadataOf tm h ''wl_bookinfo_reviews-v1'' [''httpIn'', ''httpIn5xx''],
         edgesOf tm h ''wl_bookinfo_productpage-v1'' [''http'', ''http5xx'']))
   = ([Some (VFloat 5), None], [(''wl_bookinfo_reviews-v1'', [Some (VFloat 5), None])])"
  by (simp add: sample503_def builder_eval)

text \<open>\<^verbatim>\<open>addHttpTraffic\<close> itself, given the code 503, fills both entries.\<close>

lemma addHttpTraffic_503_bucketed:
  "(case addHttpTraffic Id [] 5 ''503'' (''bookinfo'', ''productpage-v1'', ''Unknown'', ''Unknown'', [])
           (''bookinfo'', ''reviews-v1'', ''Unknown'', ''Unknown'', ''reviews'') workloadOptions emptyHeap of
      Inl _ \<Rightarrow> ([], [])
    | Inr (_, tm, h) \<Rightarrow>
        (metadataOf tm h ''wl_bookinfo_reviews-v1'' [''httpIn'', ''httpIn5xx''],
         edgesOf tm h ''wl_bookinfo_productpage-v1'' [''http'', ''http5xx'']))
   = ([Some (VFloat 5), Some (VFloat 5)], [(''wl_bookinfo_reviews-v1'', [Some (VFloat 5), Some (VFloat 5)])])"
  by (simp add: builder_eval)

text \<open>
  C6, amended: a call of \<^verbatim>\<open>addHttpTraffic\<close> adds the value to the total of \<^verbatim>\<open>httpIn3xx\<close>
  (\<^verbatim>\<open>httpIn4xx\<close>, \<^verbatim>\<open>httpIn5xx\<close>) over the nodes and to the total of \<^verbatim>\<open>http3xx\<close> (\<^verbatim>\<open>http4xx\<close>,
  \<^verbatim>\<open>http5xx\<close>) over the edges when the code it is given begins with 3 (4, 5), and to none of
  them otherwise; \<^verbatim>\<open>populateTrafficMapHttp\<close> gives it the code \<^verbatim>\<open>"200"\<close> for every accepted
  sample, so the samples it processes leave all six totals as they were.
\<close>

theorem response_code_buckets:
  assumes "builderInv tm h"
  shows "(\<exists>s d tm' h'. addHttpTraffic idf tm val code src dst opts h = Inr ((s, d), tm', h')
            \<and> nodeSum ''httpIn3xx'' tm' h' = nodeSum ''httpIn3xx'' tm h + (if hasPrefix code ''3'' then val else 0)
            \<and> edgeSum ''http3xx'' tm' h' = edgeSum ''http3xx'' tm h + (if hasPrefix code ''3'' then val else 0)
            \<and> nodeSum ''httpIn4xx'' tm' h' = nodeSum ''httpIn4xx'' tm h + (if hasPrefix code ''4'' then val else 0)
            \<and> edgeSum ''http4xx'' tm' h' = edgeSum ''http4xx'' tm h + (if hasPrefix code ''4'' then val else 0)
            \<and> nodeSum ''httpIn5xx'' tm' h' = nodeSum ''httpIn5xx'' tm h + (if hasPrefix code ''5'' then val else 0)
            \<and> edgeSum ''http5xx'' tm' h' = edgeSum ''http5xx'' tm h + (if hasPrefix code ''5'' then val else 0))
       \<and> (\<exists>tm' h'. populateTrafficMapHttp idf tm vector opts h = Inr (tm', h')
            \<and> nodeSum ''httpIn3xx'' tm' h' = nodeSum ''httpIn3xx'' tm h
            \<and> edgeSum ''http3xx'' tm' h' = edgeSum ''http3xx'' tm h
            \<and> nodeSum ''httpIn4xx'' tm' h' = nodeSum ''httpIn4xx'' tm h
            \<and> edgeSum ''http4xx'' tm' h' = edgeSum ''http4xx'' tm h
            \<and> nodeSum ''httpIn5xx'' tm' h' = nodeSum ''httpIn5xx'' tm h
            \<and> edgeSum ''http5xx'' tm' h' = edgeSum ''http5xx'' tm h)"
proof -
  from addHttpTraffic_step[OF assms, of idf val code src dst opts] obtain s d tm1 h1 where
    r: "addHttpTraffic idf tm val code src dst opts h = Inr ((s, d), tm1, h1)"
    and st: "builderStep tm h tm1 h1 (httpNodeDelta code val) (httpEdgeDelta code val)" by blast
  from st have n: "\<And>k. nodeSum k tm1 h1 = nodeSum k tm h + httpNodeDelta code val k"
    and e: "\<And>k. edgeSum k tm1 h1 = edgeSum k tm h + httpEdgeDelta code val k"
    by (simp_all add: builderStep_def)
  have A: "nodeSum ''httpIn3xx'' tm1 h1 = nodeSum ''httpIn3xx'' tm h + (if hasPrefix code ''3'' then val else 0)
            \<and> edgeSum ''http3xx'' tm1 h1 = edgeSum ''http3xx'' tm h + (if hasPrefix code ''3'' then val else 0)
            \<and> nodeSum ''httpIn4xx'' tm1 h1 = nodeSum ''httpIn4xx'' tm h + (if hasPrefix code ''4'' then val else 0)
            \<and> edgeSum ''http4xx'' tm1 h1 = edgeSum ''http4xx'' tm h + (if hasPrefix code ''4'' then val else 0)
            \<and> nodeSum ''httpIn5xx'' tm1 h1 = nodeSum ''httpIn5xx'' tm h + (if hasPrefix code ''5'' then val else 0)
            \<and> edgeSum ''http5xx'' tm1 h1 = edgeSum ''http5xx'' tm h + (if hasPrefix code ''5'' then val else 0)"
    unfolding n e using hasPrefix_exclusive[of code]
    by (simp add: httpNodeDelta_def httpEdgeDelta_def)
  from populateTrafficMapHttp_step[OF assms, of idf vector opts] obtain x tm2 h2 where
    r2: "populateTrafficMapHttp idf tm vector opts h = Inr (tm2, h2)"
    and st2: "builderStep tm h tm2 h2 (sampleNodeDelta x) (sampleEdgeDelta x)" by blast
  from st2 have B: "nodeSum ''httpIn3xx'' tm2 h2 = nodeSum ''httpIn3xx'' tm h
            \<and> edgeSum ''http3xx'' tm2 h2 = edgeSum ''http3xx'' tm h
            \<and> nodeSum ''httpIn4xx'' tm2 h2 = nodeSum ''httpIn4xx'' tm h
            \<and> edgeSum ''http4xx'' tm2 h2 = edgeSum ''http4xx'' tm h
            \<and> nodeSum ''httpIn5xx'' tm2 h2 = nodeSum ''httpIn5xx'' tm h
            \<and> edgeSum ''http5xx'' tm2 h2 = edgeSum ''http5xx'' tm h"
    by (simp add: builderStep_def sampleNodeDelta_def sampleEdgeDelta_def)
  from r A r2 B show ?thesis by blast
qed

theorem response_code_buckets_witness:
  "(\<exists>s d tm' h'. addHttpTraffic Id [] 5 ''503'' productpage mongodb workloadOptions emptyHeap
                   = Inr ((s, d), tm', h')
            \<and> nodeSum ''httpIn3xx'' tm' h' = 0 \<and> edgeSum ''http3xx'' tm' h' = 0
            \<and> nodeSum ''httpIn4xx'' tm' h' = 0 \<and> edgeSum ''http4xx'' tm' h' = 0
            \<and> nodeSum ''httpIn5xx'' tm' h' = 5 \<and> edgeSum ''http5xx'' tm' h' = 5)
   \<and> (\<exists>tm' h'. populateTrafficMapHttp Id [] [sample503] workloadOptions emptyHeap = Inr (tm', h')
            \<and> nodeSum ''httpIn3xx'' tm' h' = 0 \<and> edgeSum ''http3xx'' tm' h' = 0
            \<and> nodeSum ''httpIn4xx'' tm' h' = 0 \<and> edgeSum ''http4xx'' tm' h' = 0
            \<and> nodeSum ''httpIn5xx'' tm' h' = 0 \<and> edgeSum ''http5xx'' tm' h' = 0)"
  using response_code_buckets [of "[]" emptyHeap Id 5 "''503''" productpage mongodb workloadOptions
      "[sample503]"]
  by (simp add: builderInv_def allEdges_def nodeSum_def edgeSum_def hasPrefix_def)


section \<open>Reduction to the service graph\<close>

lemmas reduce_eval = reduceToServiceGraph_def reducedView_def oneWorkload_def oneWorkloadMap_def
  twoWorkloads_def twoWorkloadsMap_def serviceGraphNode_def counterEdge_def blankNode_def blankEdge_def
  setNodeEdges_def setEdgeMetadata_def bindE_def checkNodeType_def addServiceGraphTraffic_def
  addRequired_def addIfPresent_def addToEdgeMetadataValue_def addToMetadataValue_def Let_def edgesOf_def

text \<open>
  C8, as stated, fails: on the graph S1 \<rightarrow> W \<rightarrow> S2 whose edge W \<rightarrow> S2 has the protocol
  \<^verbatim>\<open>"grpc"\<close>, the reduction returns a graph, with that edge as the edge of S1; no error is
  raised.
\<close>

theorem unknown_protocol_adopted:
  "reducedView (reduceToServiceGraph oneWorkloadMap (oneWorkload ''grpc''))
     = Inr ([''svc_bookinfo_productpage'', ''svc_bookinfo_ratings''],
            [(''svc_bookinfo_ratings'', [Some (VString ''grpc''), Some (VFloat 100)])])"
  by (simp add: reduce_eval)

text \<open>With two such edges to S2 the second has to be merged into the first, and the whole
  reduction stops with the error.\<close>

lemma unknown_protocol_merge_aborts:
  "reduceToServiceGraph twoWorkloadsMap (twoWorkloads ''grpc'')
     = Inl (ErrUnexpectedEdgeProtocol (Some (VString ''grpc'')))"
  by (simp add: reduce_eval)









text \<open>
  C8, amended: \<^verbatim>\<open>addServiceGraphTraffic\<close> stops with the fatal error, before it adds
  anything, when the protocol of its target edge is neither \<^verbatim>\<open>"http"\<close> nor \<^verbatim>\<open>"tcp"\<close>; the
  reducer calls it, and so stops, exactly for an edge whose destination id and protocol
  an edge of the service node already has. An edge that matches no edge of the service
  node is adopted as it is, whatever its protocol, and the reduction goes on.
\<close>

theorem unknown_protocol_fatal_on_merge:
  "(EdgeMetadata (edges h target) ''protocol'' \<noteq> Some (VString ''http'')
      \<and> EdgeMetadata (edges h target) ''protocol'' \<noteq> Some (VString ''tcp'') \<longrightarrow>
      addServiceGraphTraffic target src h
        = Inl (ErrUnexpectedEdgeProtocol (EdgeMetadata (edges h target) ''protocol'')))
   \<and> (NodeType (nodes h (Dest (edges h serviceEdge))) = NodeTypeService
      \<and> findMatchingEdge h (ID (nodes h (Dest (edges h serviceEdge))))
            (EdgeMetadata (edges h serviceEdge) ''protocol'') (Edges (nodes h n)) = Inr (Some e)
      \<and> EdgeMetadata (edges h e) ''protocol'' \<noteq> Some (VString ''http'')
      \<and> EdgeMetadata (edges h e) ''protocol'' \<noteq> Some (VString ''tcp'') \<longrightarrow>
      reduceServiceEdges n (serviceEdge # rest) h
        = Inl (ErrUnexpectedEdgeProtocol (EdgeMetadata (edges h e) ''protocol'')))
   \<and> (NodeType (nodes h (Dest (edges h serviceEdge))) = NodeTypeService
      \<and> findMatchingEdge h (ID (nodes h (Dest (edges h serviceEdge))))
            (EdgeMetadata (edges h serviceEdge) ''protocol'') (Edges (nodes h n)) = Inr None \<longrightarrow>
      reduceServiceEdges n (serviceEdge # rest) h
        = reduceServiceEdges n rest (setNodeEdges n (Edges (nodes h n) @ [serviceEdge]) h))"
proof -
  have a: "EdgeMetadata (edges h t) ''protocol'' \<noteq> Some (VString ''http'')
      \<and> EdgeMetadata (edges h t) ''protocol'' \<noteq> Some (VString ''tcp'') \<Longrightarrow>
      addServiceGraphTraffic t s h
        = Inl (ErrUnexpectedEdgeProtocol (EdgeMetadata (edges h t) ''protocol''))" for t s
    by (simp add: addServiceGraphTraffic_def Let_def bindE_def)
  show ?thesis
    using a[of target src] a[of e serviceEdge]
    by (simp add: Let_def bindE_def checkNodeType_def)
qed

theorem unknown_protocol_fatal_on_merge_witness:
  "addServiceGraphTraffic 1 3 (twoWorkloads ''grpc'')
     = Inl (ErrUnexpectedEdgeProtocol (Some (VString ''grpc'')))
   \<and> reduceServiceEdges 0 [3] (setNodeEdges 0 [1] (twoWorkloads ''grpc''))
     = Inl (ErrUnexpectedEdgeProtocol (Some (VString ''grpc'')))
   \<and> reduceServiceEdges 0 [1] (setNodeEdges 0 [] (twoWorkloads ''grpc''))
     = Inr (setNodeEdges 0 [1] (twoWorkloads ''grpc''))"
  using unknown_protocol_fatal_on_merge [of "twoWorkloads ''grpc''" 1 3 1 0 1 "[]"]
    unknown_protocol_fatal_on_merge [of "setNodeEdges 0 [1] (twoWorkloads ''grpc'')" 1 3 3 0 1 "[]"]
    unknown_protocol_fatal_on_merge [of "setNodeEdges 0 [] (twoWorkloads ''grpc'')" 1 3 1 0 1 "[]"]
  by (simp add: twoWorkloads_def counterEdge_def serviceGraphNode_def blankNode_def blankEdge_def
        setNodeEdges_def bindE_def)


end
